theory Spec2Isabelle
  imports Complex_Main "HOL-Library.Word" "HOL-Library.AList"
begin

section \<open>JavaScript strings\<close>

text \<open>
  A JavaScript string is a sequence of UTF-16 code units. String literals of the source
  that are plain ASCII are written with \<open>js\<close>; the Chinese status messages are written
  as their code units.
\<close>

type_synonym jsstring = "16 word list"

definition js :: "string \<Rightarrow> jsstring" where
  "js s = map of_char s"

datatype js_error = URIError

subsection \<open>decodeURIComponent (ECMA-262, Decode with an empty preserved set)\<close>

definition hexDigit :: "16 word \<Rightarrow> nat option" where
  "hexDigit c =
     (if 0x30 \<le> c \<and> c \<le> 0x39 then Some (unat c - 0x30)
      else if 0x41 \<le> c \<and> c \<le> 0x46 then Some (unat c - 0x41 + 10)
      else if 0x61 \<le> c \<and> c \<le> 0x66 then Some (unat c - 0x61 + 10)
      else None)"

definition parseHexOctet :: "16 word \<Rightarrow> 16 word \<Rightarrow> nat option" where
  "parseHexOctet h l =
     (case hexDigit h of
        None \<Rightarrow> None
      | Some a \<Rightarrow> (case hexDigit l of None \<Rightarrow> None | Some b \<Rightarrow> Some (16 * a + b)))"

definition leadingOnes :: "nat \<Rightarrow> nat" where
  "leadingOnes b =
     (if b < 0x80 then 0 else if b < 0xC0 then 1 else if b < 0xE0 then 2
      else if b < 0xF0 then 3 else if b < 0xF8 then 4 else 5)"

fun escapedOctets :: "nat \<Rightarrow> jsstring \<Rightarrow> nat list option" where
  "escapedOctets 0 s = Some []"
| "escapedOctets (Suc m) (p # h # l # s) =
     (if p \<noteq> 0x25 then None
      else (case parseHexOctet h l of
              None \<Rightarrow> None
            | Some b \<Rightarrow> (case escapedOctets m s of None \<Rightarrow> None | Some bs \<Rightarrow> Some (b # bs))))"
| "escapedOctets (Suc m) s = None"

definition inRange :: "nat \<Rightarrow> nat \<Rightarrow> nat \<Rightarrow> bool" where
  "inRange lo hi b = (lo \<le> b \<and> b \<le> hi)"

fun utf8CodePoint :: "nat list \<Rightarrow> nat option" where
  "utf8CodePoint [b0, b1] =
     (if inRange 0xC2 0xDF b0 \<and> inRange 0x80 0xBF b1
      then Some ((b0 mod 32) * 64 + b1 mod 64) else None)"
| "utf8CodePoint [b0, b1, b2] =
     (if ((b0 = 0xE0 \<and> inRange 0xA0 0xBF b1)
          \<or> (inRange 0xE1 0xEC b0 \<and> inRange 0x80 0xBF b1)
          \<or> (b0 = 0xED \<and> inRange 0x80 0x9F b1)
          \<or> (inRange 0xEE 0xEF b0 \<and> inRange 0x80 0xBF b1))
         \<and> inRange 0x80 0xBF b2
      then Some ((b0 mod 16) * 4096 + (b1 mod 64) * 64 + b2 mod 64) else None)"
| "utf8CodePoint [b0, b1, b2, b3] =
     (if ((b0 = 0xF0 \<and> inRange 0x90 0xBF b1)
          \<or> (inRange 0xF1 0xF3 b0 \<and> inRange 0x80 0xBF b1)
          \<or> (b0 = 0xF4 \<and> inRange 0x80 0x8F b1))
         \<and> inRange 0x80 0xBF b2 \<and> inRange 0x80 0xBF b3
      then Some ((b0 mod 8) * 262144 + (b1 mod 64) * 4096 + (b2 mod 64) * 64 + b3 mod 64)
      else None)"
| "utf8CodePoint bs = None"

definition utf16EncodeCodePoint :: "nat \<Rightarrow> jsstring" where
  "utf16EncodeCodePoint cp =
     (if cp \<le> 0xFFFF then [of_nat cp]
      else [of_nat ((cp - 0x10000) div 0x400 + 0xD800),
            of_nat ((cp - 0x10000) mod 0x400 + 0xDC00)])"

function decodeURIComponent :: "jsstring \<Rightarrow> js_error + jsstring" where
  "decodeURIComponent [] = Inr []"
| "decodeURIComponent (c # cs) =
     (if c \<noteq> 0x25 then
        (case decodeURIComponent cs of Inl e \<Rightarrow> Inl e | Inr r \<Rightarrow> Inr (c # r))
      else if length cs < 2 then Inl URIError
      else (case parseHexOctet (cs ! 0) (cs ! 1) of
              None \<Rightarrow> Inl URIError
            | Some b \<Rightarrow>
                (let n = leadingOnes b; rest = drop 2 cs in
                 if n = 0 then
                   (case decodeURIComponent rest of
                      Inl e \<Rightarrow> Inl e | Inr r \<Rightarrow> Inr (of_nat b # r))
                 else if n = 1 \<or> n > 4 then Inl URIError
                 else if length rest < 3 * (n - 1) then Inl URIError
                 else (case escapedOctets (n - 1) rest of
                         None \<Rightarrow> Inl URIError
                       | Some bs \<Rightarrow>
                           (case utf8CodePoint (b # bs) of
                              None \<Rightarrow> Inl URIError
                            | Some cp \<Rightarrow>
                                (case decodeURIComponent (drop (3 * (n - 1)) rest) of
                                   Inl e \<Rightarrow> Inl e
                                 | Inr r \<Rightarrow> Inr (utf16EncodeCodePoint cp @ r)))))))"
  by pat_completeness auto
termination
  by (relation "measure length") auto


subsection \<open>String.prototype.toLowerCase\<close>

text \<open>
  On a string of ASCII code units \<open>toLowerCase\<close> maps \<open>A\<close>--\<open>Z\<close> to \<open>a\<close>--\<open>z\<close> and leaves
  the rest alone. On any other string the result is the Unicode case mapping of the
  JavaScript runtime, which is not part of the repository: it is the parameter
  \<open>unicodeLower\<close> of the runtime record below, and every theorem holds for each value of it.
  The other parameter, \<open>urlPathname\<close>, stands for
  \<^verbatim>\<open>new URL(url, window.location.href).pathname\<close>: \<open>None\<close> when the constructor throws.
\<close>

record runtime =
  unicodeLower :: "jsstring \<Rightarrow> jsstring"
  urlPathname :: "jsstring \<Rightarrow> jsstring option"

definition asciiLower :: "16 word \<Rightarrow> 16 word" where
  "asciiLower c = (if 0x41 \<le> c \<and> c \<le> 0x5A then c + 0x20 else c)"

definition toLowerCase :: "runtime \<Rightarrow> jsstring \<Rightarrow> jsstring" where
  "toLowerCase rt s =
     (if list_all (\<lambda>c. c < 0x80) s then map asciiLower s else unicodeLower rt s)"

definition endsWith :: "jsstring \<Rightarrow> jsstring \<Rightarrow> bool" where
  "endsWith s suffix = (length suffix \<le> length s \<and> drop (length s - length suffix) s = suffix)"

section \<open>Path Normalizer\<close>

text \<open>
  \<^verbatim>\<open>
  const normalizeAssetPath = (path: string) => {
    return (
      decodeURIComponent(path)
        .replace(/^blob:[^/]+\//, '')
        .replace(/^\.?\//, '')
        .replace(/^\//, '')
        .replace(/\\/g, '/')
        .split(/[?#]/)[0] ?? ''
    )
  }
  \<close>
  Each step of the chain is one definition. \<open>decodeURIComponent\<close> is called outside any
  \<^verbatim>\<open>try\<close>, so its URIError leaves the function.
\<close>

definition stripBlobOrigin :: "jsstring \<Rightarrow> jsstring" where
  \<comment> \<open>\<^verbatim>\<open>.replace(/^blob:[^/]+\//, '')\<close>\<close>
  "stripBlobOrigin s =
     (if take 5 s = js ''blob:'' then
        (let rest = drop 5 s;
             run = takeWhile (\<lambda>c. c \<noteq> 0x2F) rest;
             after = dropWhile (\<lambda>c. c \<noteq> 0x2F) rest
         in if run \<noteq> [] \<and> after \<noteq> [] then tl after else s)
      else s)"

definition stripDotSlash :: "jsstring \<Rightarrow> jsstring" where
  \<comment> \<open>\<^verbatim>\<open>.replace(/^\.?\//, '')\<close>\<close>
  "stripDotSlash s =
     (if take 2 s = [0x2E, 0x2F] then drop 2 s
      else if take 1 s = [0x2F] then drop 1 s
      else s)"

definition stripSlash :: "jsstring \<Rightarrow> jsstring" where
  \<comment> \<open>\<^verbatim>\<open>.replace(/^\//, '')\<close>\<close>
  "stripSlash s = (if take 1 s = [0x2F] then drop 1 s else s)"

definition backslashesToSlashes :: "jsstring \<Rightarrow> jsstring" where
  \<comment> \<open>\<^verbatim>\<open>.replace(/\\/g, '/')\<close>\<close>
  "backslashesToSlashes s = map (\<lambda>c. if c = 0x5C then 0x2F else c) s"

definition beforeQueryOrHash :: "jsstring \<Rightarrow> jsstring" where
  \<comment> \<open>\<^verbatim>\<open>.split(/[?#]/)[0] ?? ''\<close>: the part before the first \<open>?\<close> or \<open>#\<close>\<close>
  "beforeQueryOrHash s = takeWhile (\<lambda>c. c \<noteq> 0x3F \<and> c \<noteq> 0x23) s"

definition normalizeAssetPath :: "jsstring \<Rightarrow> js_error + jsstring" where
  "normalizeAssetPath path =
     (case decodeURIComponent path of
        Inl e \<Rightarrow> Inl e
      | Inr decoded \<Rightarrow>
          Inr (beforeQueryOrHash (backslashesToSlashes
                 (stripSlash (stripDotSlash (stripBlobOrigin decoded))))))"

definition normalizeTwice :: "jsstring \<Rightarrow> js_error + jsstring" where
  \<comment> \<open>\<open>normalizeAssetPath(normalizeAssetPath(s))\<close>\<close>
  "normalizeTwice s =
     (case normalizeAssetPath s of Inl e \<Rightarrow> Inl e | Inr r \<Rightarrow> normalizeAssetPath r)"

section \<open>Asset Index\<close>

text \<open>
  A \<open>File\<close> of the browser: its name, its \<open>webkitRelativePath\<close> (empty when the file was
  not picked through a directory) and the blob it stands for, which tells two files of the
  same name apart.
\<close>

record local_file =
  name :: jsstring
  webkitRelativePath :: jsstring
  blob :: nat

text \<open>
  The index is a JavaScript \<open>Map\<close>: an association list in insertion order, where
  \<open>set\<close> on a key that is present replaces its value (\<open>AList.update\<close>).
\<close>

type_synonym asset_map = "(jsstring \<times> local_file) list"

definition basename :: "jsstring \<Rightarrow> jsstring" where
  \<comment> \<open>\<^verbatim>\<open>.split('/').pop()\<close>: what follows the last slash\<close>
  "basename s = rev (takeWhile (\<lambda>c. c \<noteq> 0x2F) (rev s))"

definition indexFile :: "runtime \<Rightarrow> asset_map \<Rightarrow> local_file \<Rightarrow> js_error + asset_map" where
  \<comment> \<open>the body of the loop of \<open>buildAssetMap\<close>\<close>
  "indexFile rt nextMap f =
     (case normalizeAssetPath (name f) of
        Inl e \<Rightarrow> Inl e
      | Inr nm \<Rightarrow>
          (let lowerName = toLowerCase rt nm;
               m1 = AList.update nm f nextMap;
               m2 = AList.update lowerName f m1
           in case normalizeAssetPath (webkitRelativePath f) of
                Inl e \<Rightarrow> Inl e
              | Inr relativePath \<Rightarrow>
                  if relativePath \<noteq> [] then
                    (let lowerRelativePath = toLowerCase rt relativePath;
                         m3 = AList.update relativePath f m2;
                         m4 = AList.update lowerRelativePath f m3;
                         base = basename relativePath
                     in if base \<noteq> [] then
                          Inr (AList.update (toLowerCase rt base) f (AList.update base f m4))
                        else Inr m4)
                  else Inr m2))"

fun indexFiles :: "runtime \<Rightarrow> asset_map \<Rightarrow> local_file list \<Rightarrow> js_error + asset_map" where
  "indexFiles rt nextMap [] = Inr nextMap"
| "indexFiles rt nextMap (f # fs) =
     (case indexFile rt nextMap f of Inl e \<Rightarrow> Inl e | Inr m \<Rightarrow> indexFiles rt m fs)"

definition buildAssetMap :: "runtime \<Rightarrow> local_file list \<Rightarrow> js_error + asset_map" where
  "buildAssetMap rt files = indexFiles rt [] files"

section \<open>Resource Resolver: the lookup\<close>

definition setAdd :: "'a \<Rightarrow> 'a list \<Rightarrow> 'a list" where
  \<comment> \<open>\<open>Set.prototype.add\<close>: insertion order, a member is not added again\<close>
  "setAdd x xs = (if x \<in> set xs then xs else xs @ [x])"

definition addKey :: "runtime \<Rightarrow> jsstring list \<Rightarrow> jsstring \<Rightarrow> js_error + jsstring list" where
  "addKey rt keys v =
     (case normalizeAssetPath v of
        Inl e \<Rightarrow> Inl e
      | Inr normalized \<Rightarrow>
          if normalized = [] then Inr keys
          else
            (let keys1 = setAdd (toLowerCase rt normalized) (setAdd normalized keys);
                 base = basename normalized
             in if base \<noteq> [] then Inr (setAdd (toLowerCase rt base) (setAdd base keys1))
                else Inr keys1))"

fun firstMatch :: "asset_map \<Rightarrow> jsstring list \<Rightarrow> local_file option" where
  \<comment> \<open>\<^verbatim>\<open>for (const key of keys) { const file = assetMap.get(key); if (file) return file }\<close>\<close>
  "firstMatch assetMap [] = None"
| "firstMatch assetMap (key # keys) =
     (case map_of assetMap key of Some f \<Rightarrow> Some f | None \<Rightarrow> firstMatch assetMap keys)"

definition candidateKeys :: "runtime \<Rightarrow> jsstring \<Rightarrow> js_error + jsstring list" where
  \<comment> \<open>the key set of \<open>findAssetFileByUrl\<close>: \<open>addKey(url)\<close> outside the \<^verbatim>\<open>try\<close>, the
      parsed path name inside it\<close>
  "candidateKeys rt url =
     (case addKey rt [] url of
        Inl e \<Rightarrow> Inl e
      | Inr keys \<Rightarrow>
          (case urlPathname rt url of
             None \<Rightarrow> Inr keys
           | Some pathname \<Rightarrow>
               (case addKey rt keys pathname of Inl e \<Rightarrow> Inr keys | Inr keys' \<Rightarrow> Inr keys')))"

definition findAssetFileByUrl :: "runtime \<Rightarrow> asset_map \<Rightarrow> jsstring \<Rightarrow> js_error + local_file option" where
  "findAssetFileByUrl rt assetMap url =
     (case candidateKeys rt url of
        Inl e \<Rightarrow> Inl e
      | Inr keys \<Rightarrow> Inr (firstMatch assetMap keys))"


text \<open>
  Resolving a reference against the index built from a file set: \<open>buildAssetMap\<close> followed
  by \<open>findAssetFileByUrl\<close>.
\<close>

definition resolveAgainst :: "runtime \<Rightarrow> local_file list \<Rightarrow> jsstring \<Rightarrow> js_error + local_file option" where
  "resolveAgainst rt fs url =
     (case buildAssetMap rt fs of Inl e \<Rightarrow> Inl e | Inr m \<Rightarrow> findAssetFileByUrl rt m url)"

definition indexedUnder :: "runtime \<Rightarrow> local_file \<Rightarrow> jsstring \<Rightarrow> bool" where
  \<comment> \<open>the file, indexed alone, has the key\<close>
  "indexedUnder rt f k =
     (case buildAssetMap rt [f] of Inl e \<Rightarrow> False | Inr single \<Rightarrow> map_of single k \<noteq> None)"

text \<open>
  A runtime for the examples: a document at the root of its origin, where the path name of
  a relative reference is the reference after a slash, without a leading \<open>./\<close>. The
  examples use relative references with no other dot segment, no query and no fragment,
  and ASCII names only, for which \<open>unicodeLower\<close> is not consulted.
\<close>

definition sampleRuntime :: runtime where
  "sampleRuntime =
     \<lparr>unicodeLower = map asciiLower,
      urlPathname = (\<lambda>u. if take 2 u = [0x2E, 0x2F] then Some (0x2F # drop 2 u)
                          else Some (0x2F # u))\<rparr>"

text \<open>Files for the examples.\<close>

definition robotFile :: local_file where
  "robotFile = \<lparr>name = js ''Robot.BIN'', webkitRelativePath = js ''textures/Robot.BIN'', blob = 0\<rparr>"

definition sceneFile :: local_file where
  "sceneFile = \<lparr>name = js ''scene.gltf'', webkitRelativePath = [], blob = 1\<rparr>"

definition shadowFile :: local_file where
  "shadowFile = \<lparr>name = js ''robot.bin'', webkitRelativePath = [], blob = 2\<rparr>"

section \<open>Scene data\<close>

text \<open>
  A JavaScript number is modelled by the real number it denotes; NaN and the infinities are
  not part of the model. The falsy test of \<^verbatim>\<open>x || 1\<close> on a number is therefore the test
  \<open>x = 0\<close>. The lighting heuristic compares computed means with thresholds, so there every
  arithmetic operation and every decimal literal is rounded to the nearest double, as
  IEEE 754 prescribes. The auto-framing, whose results depend continuously on its inputs, is
  written with exact real arithmetic.
\<close>

datatype vec3 = Vec3 real real real

datatype color = Color real real real

datatype material =
    MeshStandardMaterial color real  \<comment> \<open>base colour and metalness\<close>
  | OtherMaterial

text \<open>
  A node of the scene graph with its children. A mesh carries the list of its materials
  (\<^verbatim>\<open>Array.isArray(child.material) ? child.material : [child.material]\<close>).
\<close>

datatype object3d =
    Mesh "material list" "object3d list"
  | Group "object3d list"

record box3 =
  boxMin :: vec3
  boxMax :: vec3

text \<open>
  A loaded model: its scene graph, the bounding box that \<^verbatim>\<open>Box3.setFromObject\<close> computes
  for it, and the position of its root.
\<close>

record model =
  graph :: object3d
  bounds :: box3
  modelPosition :: vec3

record scene =
  background :: nat
  children :: "model list"

record camera =
  fov :: real
  cameraPosition :: vec3
  near :: real
  far :: real

text \<open>\<open>maxDistance = None\<close> is \<open>Infinity\<close>, the default of \<open>OrbitControls\<close>.\<close>

record controls =
  target :: vec3
  minDistance :: real
  maxDistance :: "real option"

record renderer =
  toneMappingExposure :: real

record light =
  intensity :: real

text \<open>Values of the parsed glTF document, as far as \<open>toExtensionList\<close> tells them apart.\<close>

datatype jsvalue =
    JSString jsstring
  | JSArray "jsvalue list"
  | JSUndefined
  | JSOther

record gltf =
  gltfScene :: model
  extensionsRequired :: jsvalue
  extensionsUsed :: jsvalue

text \<open>What the loader passes to the error callback: an \<open>Error\<close> with its message, or any
  other value with its string form \<^verbatim>\<open>String(error)\<close>.\<close>

datatype thrown =
    IsError jsstring
  | NotError jsstring

section \<open>Viewer state\<close>

text \<open>
  An object URL is named by its serial number: \<^verbatim>\<open>URL.createObjectURL\<close> returns a URL that
  was never returned before. \<open>nextObjectUrl\<close> and \<open>revokedUrls\<close> are the browser's side:
  the next serial number and the log of every \<^verbatim>\<open>URL.revokeObjectURL\<close> call, in order and
  with repetitions. \<open>pendingLoads\<close> are the calls of \<^verbatim>\<open>gltfLoader.load\<close> whose callbacks have
  not fired yet, each with what its two closures captured.
\<close>

type_synonym handle = nat

record load_request =
  mainUrl :: handle
  mainFile :: local_file
  files :: "local_file list"

record viewer =
  isLoading :: bool
  hasModel :: bool
  statusText :: jsstring
  requiredExtensions :: "jsstring list"
  usedExtensions :: "jsstring list"
  scene :: "scene option"
  camera :: "camera option"
  renderer :: "renderer option"
  controls :: "controls option"
  fillLight :: "light option"
  keyLight :: "light option"
  gltfLoader :: bool
  activeModel :: "model option"
  assetMap :: asset_map
  trackedObjectUrls :: "handle list"
  transientResourceUrls :: "handle list"
  nextObjectUrl :: nat
  revokedUrls :: "handle list"
  pendingLoads :: "load_request list"

section \<open>Temporary Handle Lifecycle Manager\<close>

definition createObjectURL :: "viewer \<Rightarrow> handle \<times> viewer" where
  "createObjectURL st = (nextObjectUrl st, st\<lparr>nextObjectUrl := Suc (nextObjectUrl st)\<rparr>)"

definition revokeObjectURL :: "handle \<Rightarrow> viewer \<Rightarrow> viewer" where
  "revokeObjectURL url st = st\<lparr>revokedUrls := revokedUrls st @ [url]\<rparr>"

definition addTrackedUrl :: "handle \<Rightarrow> viewer \<Rightarrow> viewer" where
  "addTrackedUrl url st = st\<lparr>trackedObjectUrls := setAdd url (trackedObjectUrls st)\<rparr>"

definition revokeTrackedUrl :: "handle \<Rightarrow> viewer \<Rightarrow> viewer" where
  "revokeTrackedUrl url st =
     (if url \<notin> set (trackedObjectUrls st) then st
      else (revokeObjectURL url st)\<lparr>trackedObjectUrls := removeAll url (trackedObjectUrls st)\<rparr>)"

definition revokeTransientResourceUrls :: "viewer \<Rightarrow> viewer" where
  "revokeTransientResourceUrls st =
     (fold revokeObjectURL (transientResourceUrls st) st)\<lparr>transientResourceUrls := []\<rparr>"

section \<open>Resource Resolver\<close>

datatype resolved =
    Unchanged jsstring  \<comment> \<open>the requested URL, passed through\<close>
  | ObjectUrl handle    \<comment> \<open>a new object URL for a local file\<close>

definition isDataUri :: "jsstring \<Rightarrow> bool" where
  \<comment> \<open>\<^verbatim>\<open>/^data:/i.test(url)\<close>\<close>
  "isDataUri url = (map asciiLower (take 5 url) = js ''data:'')"

definition resolveAssetUrl :: "runtime \<Rightarrow> jsstring \<Rightarrow> viewer \<Rightarrow> js_error + resolved \<times> viewer" where
  "resolveAssetUrl rt url st =
     (if assetMap st = [] \<or> isDataUri url then Inr (Unchanged url, st)
      else case findAssetFileByUrl rt (assetMap st) url of
             Inl e \<Rightarrow> Inl e
           | Inr None \<Rightarrow> Inr (Unchanged url, st)
           | Inr (Some f) \<Rightarrow>
               (let (mappedUrl, st1) = createObjectURL st
                in Inr (ObjectUrl mappedUrl,
                        st1\<lparr>transientResourceUrls := transientResourceUrls st1 @ [mappedUrl]\<rparr>)))"

section \<open>Extension metadata\<close>

fun stringsOf :: "jsvalue list \<Rightarrow> jsstring list" where
  \<comment> \<open>\<^verbatim>\<open>extensions.filter((extension) => typeof extension === 'string')\<close>\<close>
  "stringsOf [] = []"
| "stringsOf (JSString s # vs) = s # stringsOf vs"
| "stringsOf (v # vs) = stringsOf vs"

fun toExtensionList :: "jsvalue \<Rightarrow> jsstring list" where
  "toExtensionList (JSArray vs) = stringsOf vs"
| "toExtensionList v = []"

section \<open>Model disposal\<close>

definition clearModel :: "viewer \<Rightarrow> viewer" where
  "clearModel st =
     (case (scene st, activeModel st) of
        (Some sc, Some m) \<Rightarrow>
          st\<lparr>scene := Some (sc\<lparr>children := removeAll m (children sc)\<rparr>),
             activeModel := None, hasModel := False,
             requiredExtensions := [], usedExtensions := []\<rparr>
      | _ \<Rightarrow> st\<lparr>requiredExtensions := [], usedExtensions := []\<rparr>)"

section \<open>IEEE 754 doubles\<close>

text \<open>
  Rounding of a real number to the nearest binary64 value, ties to the even significand.
  A number of magnitude in \<open>[2^e, 2^(e+1))\<close> is rounded to a multiple of \<open>2^(e-52)\<close>; below
  \<open>2^(-1022)\<close> the spacing is that of the subnormal numbers, \<open>2^(-1074)\<close>. A result of
  magnitude \<open>2^1024\<close> or more, which is an infinity in JavaScript, is outside the model.
\<close>

definition roundHalfEven :: "real \<Rightarrow> int" where
  "roundHalfEven y =
     (let f = \<lfloor>y\<rfloor>
      in if y - of_int f < 1 / 2 then f
         else if 1 / 2 < y - of_int f then f + 1
         else if even f then f else f + 1)"

definition binary64 :: "real \<Rightarrow> real" where
  "binary64 x =
     (if x = 0 then 0
      else (let e = max \<lfloor>log 2 \<bar>x\<bar>\<rfloor> (- 1022);
                ulp = 2 powr (of_int e - 52)
            in of_int (roundHalfEven (x / ulp)) * ulp))"

text \<open>The operators \<^verbatim>\<open>+\<close>, \<^verbatim>\<open>*\<close> and \<^verbatim>\<open>/\<close> on doubles: the exact result, rounded.\<close>

definition dadd :: "real \<Rightarrow> real \<Rightarrow> real" where
  "dadd x y = binary64 (x + y)"

definition dmul :: "real \<Rightarrow> real \<Rightarrow> real" where
  "dmul x y = binary64 (x * y)"

definition ddiv :: "real \<Rightarrow> real \<Rightarrow> real" where
  "ddiv x y = binary64 (x / y)"

section \<open>Adaptive Lighting Heuristic\<close>

text \<open>
  A decimal literal of the source denotes the double nearest to it: \<^verbatim>\<open>0.34\<close> is
  \<open>binary64 0.34\<close>. The literals \<^verbatim>\<open>0\<close> and \<^verbatim>\<open>1\<close> and the hexadecimal colours are exact.
\<close>

record lookSample =
  materialCount :: real
  luminanceSum :: real
  metallicSum :: real

fun sampleMaterial :: "lookSample \<Rightarrow> material \<Rightarrow> lookSample" where
  "sampleMaterial acc OtherMaterial = acc"
| "sampleMaterial acc (MeshStandardMaterial (Color cr cg cb) metalness) =
     (let luminance = dadd (dadd (dmul cr (binary64 0.2126)) (dmul cg (binary64 0.7152)))
                        (dmul cb (binary64 0.0722))
      in acc\<lparr>luminanceSum := dadd (luminanceSum acc) luminance,
             metallicSum := dadd (metallicSum acc) metalness,
             materialCount := dadd (materialCount acc) 1\<rparr>)"

text \<open>\<^verbatim>\<open>model.traverse(callback)\<close>: the callback on the node, then on each child's subtree.\<close>

fun traverse :: "lookSample \<Rightarrow> object3d \<Rightarrow> lookSample" where
  "traverse acc (Mesh materials kids) = fold (\<lambda>k a. traverse a k) kids (fold (\<lambda>m a. sampleMaterial a m) materials acc)"
| "traverse acc (Group kids) = fold (\<lambda>k a. traverse a k) kids acc"

record look =
  bgColor :: nat
  exposure :: real
  fillIntensity :: real
  keyIntensity :: real

definition averageLuminance :: "lookSample \<Rightarrow> real" where
  "averageLuminance smp =
     (if materialCount smp > 0 then ddiv (luminanceSum smp) (materialCount smp)
      else binary64 0.55)"

definition averageMetalness :: "lookSample \<Rightarrow> real" where
  "averageMetalness smp =
     (if materialCount smp > 0 then ddiv (metallicSum smp) (materialCount smp) else 0)"

definition chooseLook :: "real \<Rightarrow> real \<Rightarrow> look" where
  "chooseLook avgLuminance avgMetalness =
     (if avgLuminance < binary64 0.34 then
        \<lparr>bgColor = 0xf0f0ed, exposure = binary64 1.12, fillIntensity = binary64 1.2,
         keyIntensity = binary64 1.25\<rparr>
      else if avgLuminance > binary64 0.78 then
        \<lparr>bgColor = 0x242734, exposure = binary64 0.92, fillIntensity = binary64 0.95,
         keyIntensity = binary64 1.45\<rparr>
      else if avgMetalness > binary64 0.45 then
        \<lparr>bgColor = 0xdfe5ec, exposure = binary64 1.15, fillIntensity = binary64 1.18,
         keyIntensity = binary64 1.55\<rparr>
      else
        \<lparr>bgColor = 0xe8e8e8, exposure = 1, fillIntensity = binary64 1.1,
         keyIntensity = binary64 1.1\<rparr>)"

definition sceneLook :: "object3d \<Rightarrow> look" where
  "sceneLook obj =
     (let smp = traverse \<lparr>materialCount = 0, luminanceSum = 0, metallicSum = 0\<rparr> obj
      in chooseLook (averageLuminance smp) (averageMetalness smp))"

definition applyAdaptiveSceneLook :: "model \<Rightarrow> viewer \<Rightarrow> viewer" where
  "applyAdaptiveSceneLook m st =
     (case (scene st, renderer st, fillLight st, keyLight st) of
        (Some sc, Some rd, Some fl, Some kl) \<Rightarrow>
          (let lk = sceneLook (graph m)
           in st\<lparr>scene := Some (sc\<lparr>background := bgColor lk\<rparr>),
                 renderer := Some (rd\<lparr>toneMappingExposure := exposure lk\<rparr>),
                 fillLight := Some (fl\<lparr>intensity := fillIntensity lk\<rparr>),
                 keyLight := Some (kl\<lparr>intensity := keyIntensity lk\<rparr>)\<rparr>)
      | _ \<Rightarrow> st)"


section \<open>Scene Auto-Framing\<close>

fun vsub :: "vec3 \<Rightarrow> vec3 \<Rightarrow> vec3" where
  "vsub (Vec3 x1 y1 z1) (Vec3 x2 y2 z2) = Vec3 (x1 - x2) (y1 - y2) (z1 - z2)"

fun boxIsEmpty :: "vec3 \<Rightarrow> vec3 \<Rightarrow> bool" where
  "boxIsEmpty (Vec3 x1 y1 z1) (Vec3 x2 y2 z2) = (x2 < x1 \<or> y2 < y1 \<or> z2 < z1)"

fun midpoint3 :: "vec3 \<Rightarrow> vec3 \<Rightarrow> vec3" where
  "midpoint3 (Vec3 x1 y1 z1) (Vec3 x2 y2 z2) =
     Vec3 ((x1 + x2) * 0.5) ((y1 + y2) * 0.5) ((z1 + z2) * 0.5)"

definition getCenter :: "box3 \<Rightarrow> vec3" where
  \<comment> \<open>three.js \<open>Box3.getCenter\<close>\<close>
  "getCenter bx =
     (if boxIsEmpty (boxMin bx) (boxMax bx) then Vec3 0 0 0
      else midpoint3 (boxMin bx) (boxMax bx))"

definition getSize :: "box3 \<Rightarrow> vec3" where
  \<comment> \<open>three.js \<open>Box3.getSize\<close>\<close>
  "getSize bx =
     (if boxIsEmpty (boxMin bx) (boxMax bx) then Vec3 0 0 0
      else vsub (boxMax bx) (boxMin bx))"

fun maxDimension :: "vec3 \<Rightarrow> real" where
  \<comment> \<open>\<^verbatim>\<open>Math.max(size.x, size.y, size.z) || 1\<close>\<close>
  "maxDimension (Vec3 sx sy sz) =
     (if max sx (max sy sz) = 0 then 1 else max sx (max sy sz))"

definition frameDistance :: "real \<Rightarrow> box3 \<Rightarrow> real" where
  \<comment> \<open>\<open>distance\<close> of \<open>frameModel\<close>, for the camera's \<open>fov\<close> in degrees\<close>
  "frameDistance fovDegrees bx =
     (let fovRadians = (fovDegrees * pi) / 180
      in maxDimension (getSize bx) / (2 * tan (fovRadians / 2)))"

text \<open>
  \<open>frameModel\<close> moves the model it is given. That object is the one \<open>activeModel\<close> and the
  scene's child list refer to, so the move is written to both.
\<close>

definition frameModel :: "model \<Rightarrow> viewer \<Rightarrow> viewer" where
  "frameModel m st =
     (case (camera st, controls st) of
        (Some cam, Some ctl) \<Rightarrow>
          (let center = getCenter (bounds m);
               moved = m\<lparr>modelPosition := vsub (modelPosition m) center\<rparr>;
               distance = frameDistance (fov cam) (bounds m)
           in st\<lparr>activeModel := (if activeModel st = Some m then Some moved else activeModel st),
                 scene := map_option
                   (\<lambda>sc. sc\<lparr>children := map (\<lambda>x. if x = m then moved else x) (children sc)\<rparr>)
                   (scene st),
                 camera := Some (cam\<lparr>cameraPosition :=
                                        Vec3 (distance * 1.2) (distance * 0.8) (distance * 1.2),
                                      near := max (distance / 120) 0.01,
                                      far := max (distance * 120) 120\<rparr>),
                 controls := Some (ctl\<lparr>target := Vec3 0 0 0,
                                        minDistance := distance * 0.2,
                                        maxDistance := Some (distance * 8)\<rparr>)\<rparr>)
      | _ \<Rightarrow> st)"

section \<open>Loading a file set\<close>

fun decimal :: "nat \<Rightarrow> jsstring" where
  \<comment> \<open>the decimal digits of \<^verbatim>\<open>files.length\<close> in a template string\<close>
  "decimal n = (if n < 10 then [of_nat (48 + n)] else decimal (n div 10) @ [of_nat (48 + n mod 10)])"

declare decimal.simps [simp del]

definition noModelFileMessage :: jsstring where
  "noModelFileMessage =
     [0x8BF7, 0x81F3, 0x5C11, 0x63D0, 0x4F9B, 0x4E00, 0x4E2A] @ js '' .glb '' @ [0x6216]
       @ js '' .gltf '' @ [0x6587, 0x4EF6]"

definition loadingMessage :: "jsstring \<Rightarrow> jsstring" where
  "loadingMessage fileName = [0x6B63, 0x5728, 0x52A0, 0x8F7D] @ js '' '' @ fileName @ js ''...''"

definition loadedMessage :: "jsstring \<Rightarrow> nat \<Rightarrow> jsstring" where
  "loadedMessage fileName n =
     [0x5DF2, 0x52A0, 0x8F7D] @ js '' '' @ fileName @ [0xFF08, 0x5171] @ js '' '' @ decimal n
       @ js '' '' @ [0x4E2A, 0x6587, 0x4EF6, 0xFF09]"

definition loadFailedPrefix :: jsstring where
  "loadFailedPrefix = [0x6A21, 0x578B, 0x52A0, 0x8F7D, 0x5931, 0x8D25, 0xFF1A]"

definition isModelFile :: "runtime \<Rightarrow> local_file \<Rightarrow> bool" where
  "isModelFile rt f =
     (let lower = toLowerCase rt (name f)
      in endsWith lower (js ''.glb'') \<or> endsWith lower (js ''.gltf''))"

text \<open>
  \<open>loadModelFromFileSet\<close> up to the call of \<^verbatim>\<open>gltfLoader.load\<close>, which records the request.
  \<open>buildAssetMap\<close> may throw; then nothing has been assigned yet.
\<close>

definition loadModelFromFileSet :: "runtime \<Rightarrow> local_file list \<Rightarrow> viewer \<Rightarrow> js_error + viewer" where
  "loadModelFromFileSet rt fs st =
     (if \<not> gltfLoader st \<or> scene st = None then Inr st
      else case find (isModelFile rt) fs of
             None \<Rightarrow> Inr (st\<lparr>statusText := noModelFileMessage\<rparr>)
           | Some mf \<Rightarrow>
               (case buildAssetMap rt fs of
                  Inl e \<Rightarrow> Inl e
                | Inr m \<Rightarrow>
                    (let st1 = st\<lparr>assetMap := m\<rparr>;
                         (url, st2) = createObjectURL st1;
                         st3 = addTrackedUrl url st2;
                         st4 = st3\<lparr>isLoading := True, statusText := loadingMessage (name mf)\<rparr>
                     in Inr (st4\<lparr>pendingLoads := pendingLoads st4
                                     @ [\<lparr>mainUrl = url, mainFile = mf, files = fs\<rparr>]\<rparr>))))"

definition onLoadSuccess :: "load_request \<Rightarrow> gltf \<Rightarrow> viewer \<Rightarrow> viewer" where
  \<comment> \<open>the completion callback passed to \<^verbatim>\<open>gltfLoader.load\<close>\<close>
  "onLoadSuccess req g st =
     (if scene st = None then st
      else
        (let st1 = clearModel (revokeTransientResourceUrls (revokeTrackedUrl (mainUrl req) st));
             m = gltfScene g;
             st2 = st1\<lparr>activeModel := Some m,
                       scene := map_option (\<lambda>sc. sc\<lparr>children := children sc @ [m]\<rparr>) (scene st1)\<rparr>;
             st3 = applyAdaptiveSceneLook m (frameModel m st2)
         in st3\<lparr>requiredExtensions := toExtensionList (extensionsRequired g),
                usedExtensions := toExtensionList (extensionsUsed g),
                hasModel := True, isLoading := False,
                statusText := loadedMessage (name (mainFile req)) (length (files req))\<rparr>))"

definition onLoadError :: "load_request \<Rightarrow> thrown \<Rightarrow> viewer \<Rightarrow> viewer" where
  \<comment> \<open>the error callback passed to \<^verbatim>\<open>gltfLoader.load\<close>\<close>
  "onLoadError req err st =
     (let st1 = revokeTransientResourceUrls (revokeTrackedUrl (mainUrl req) st);
          message = (case err of IsError msg \<Rightarrow> msg | NotError str \<Rightarrow> str)
      in st1\<lparr>isLoading := False, statusText := loadFailedPrefix @ message\<rparr>)"

definition onBeforeUnmount :: "viewer \<Rightarrow> viewer" where
  "onBeforeUnmount st =
     (let st1 = revokeTransientResourceUrls (clearModel st);
          st2 = (fold revokeObjectURL (trackedObjectUrls st1) st1)\<lparr>trackedObjectUrls := []\<rparr>
      in st2\<lparr>controls := None, renderer := None, gltfLoader := False, scene := None,
             camera := None, fillLight := None, keyLight := None\<rparr>)"

section \<open>Mounting\<close>

definition initialStatusText :: jsstring where
  "initialStatusText =
     [0x62D6, 0x62FD, 0x6A21, 0x578B, 0x6587, 0x4EF6, 0xFF0C, 0x6216, 0x70B9, 0x51FB, 0x53F3,
      0x4E0B, 0x89D2, 0x201C, 0x9009, 0x62E9, 0x6587, 0x4EF6, 0x201D, 0x5F00, 0x59CB, 0x9884,
      0x89C8]"

definition initialViewer :: viewer where
  \<comment> \<open>the initial values of the refs and of the module-level variables\<close>
  "initialViewer =
     \<lparr>isLoading = False, hasModel = False, statusText = initialStatusText,
      requiredExtensions = [], usedExtensions = [],
      scene = None, camera = None, renderer = None, controls = None,
      fillLight = None, keyLight = None, gltfLoader = False, activeModel = None,
      assetMap = [], trackedObjectUrls = [], transientResourceUrls = [],
      nextObjectUrl = 0, revokedUrls = [], pendingLoads = []\<rparr>"

definition onMounted :: "viewer \<Rightarrow> viewer" where
  \<comment> \<open>with the host element present\<close>
  "onMounted st =
     st\<lparr>scene := Some \<lparr>background = 0x2a3448, children = []\<rparr>,
        camera := Some \<lparr>fov = 55, cameraPosition = Vec3 6 4 6, near = 0.1, far = 5000\<rparr>,
        renderer := Some \<lparr>toneMappingExposure = 1\<rparr>,
        fillLight := Some \<lparr>intensity = 1.1\<rparr>,
        keyLight := Some \<lparr>intensity = 1.1\<rparr>,
        controls := Some \<lparr>target = Vec3 0 0 0, minDistance = 0, maxDistance = None\<rparr>,
        gltfLoader := True\<rparr>"

definition mountedViewer :: viewer where
  "mountedViewer = onMounted initialViewer"

section \<open>The event loop\<close>

text \<open>
  What can happen to a mounted viewer, one event at a time: the user provides files, the
  loading manager asks for a resource URL, a pending load calls one of its two callbacks,
  the loading manager reports that nothing is in flight (its \<open>onLoad\<close>, whose timeout then
  sweeps the transient URLs), and the view is unmounted. An exception leaves the handler
  and the state as it was.
\<close>

datatype event =
    FilesProvided "local_file list"
  | ResourceRequested jsstring
  | LoadSucceeded load_request gltf
  | LoadFailed load_request thrown
  | ManagerIdle
  | Unmounted

fun step :: "runtime \<Rightarrow> viewer \<Rightarrow> event \<Rightarrow> viewer" where
  "step rt st (FilesProvided fs) =
     (if fs = [] then st
      else case loadModelFromFileSet rt fs st of Inl e \<Rightarrow> st | Inr st' \<Rightarrow> st')"
| "step rt st (ResourceRequested url) =
     (case resolveAssetUrl rt url st of Inl e \<Rightarrow> st | Inr (u, st') \<Rightarrow> st')"
| "step rt st (LoadSucceeded req g) =
     (if req \<in> set (pendingLoads st)
      then onLoadSuccess req g (st\<lparr>pendingLoads := remove1 req (pendingLoads st)\<rparr>)
      else st)"
| "step rt st (LoadFailed req err) =
     (if req \<in> set (pendingLoads st)
      then onLoadError req err (st\<lparr>pendingLoads := remove1 req (pendingLoads st)\<rparr>)
      else st)"
| "step rt st ManagerIdle = revokeTransientResourceUrls st"
| "step rt st Unmounted = onBeforeUnmount st"

definition run :: "runtime \<Rightarrow> event list \<Rightarrow> viewer \<Rightarrow> viewer" where
  "run rt evs st = foldl (step rt) st evs"

section \<open>Accounting for object URLs\<close>

text \<open>
  Every object URL created so far is in exactly one of three places: the tracked set, the
  transient list, or the log of revocations, where it occurs once.
\<close>

definition handlesAccounted :: "viewer \<Rightarrow> bool" where
  "handlesAccounted st =
     (distinct (trackedObjectUrls st @ transientResourceUrls st @ revokedUrls st)
      \<and> set (trackedObjectUrls st @ transientResourceUrls st @ revokedUrls st)
          = {..<nextObjectUrl st})"

definition primariesAccounted :: "viewer \<Rightarrow> bool" where
  \<comment> \<open>the main URL of a pending load is tracked or has been revoked\<close>
  "primariesAccounted st =
     list_all (\<lambda>req. mainUrl req \<in> set (trackedObjectUrls st) \<union> set (revokedUrls st))
       (pendingLoads st)"

section \<open>Example session\<close>

definition secondScene :: local_file where
  "secondScene = \<lparr>name = js ''second.gltf'', webkitRelativePath = [], blob = 3\<rparr>"

definition firstLoad :: load_request where
  "firstLoad = \<lparr>mainUrl = 0, mainFile = sceneFile, files = [sceneFile, robotFile]\<rparr>"

definition secondLoad :: load_request where
  "secondLoad = \<lparr>mainUrl = 1, mainFile = secondScene, files = [secondScene, shadowFile]\<rparr>"

definition sampleGltf :: gltf where
  "sampleGltf =
     \<lparr>gltfScene =
        \<lparr>graph = Mesh [MeshStandardMaterial (Color 0.5 0.5 0.5) 0] [],
         bounds = \<lparr>boxMin = Vec3 (-1) (-1) (-1), boxMax = Vec3 1 1 1\<rparr>,
         modelPosition = Vec3 0 0 0\<rparr>,
      extensionsRequired = JSArray [JSString (js ''KHR_draco_mesh_compression'')],
      extensionsUsed = JSUndefined\<rparr>"

text \<open>
  Two loads that overlap: the second file set is provided while the first load is pending,
  and a resource is then requested and resolved to a file of the second set.
\<close>

definition overlappingLoads :: "event list" where
  "overlappingLoads =
     [FilesProvided [sceneFile, robotFile],
      FilesProvided [secondScene, shadowFile],
      ResourceRequested (js ''robot.bin'')]"

definition percentFile :: local_file where
  "percentFile = \<lparr>name = js ''100%.png'', webkitRelativePath = [], blob = 4\<rparr>"

text \<open>A load is started and the view is unmounted before the loader calls back.\<close>

definition unmountedWhileLoading :: viewer where
  "unmountedWhileLoading =
     run sampleRuntime [FilesProvided [sceneFile, robotFile], Unmounted] mountedViewer"

section \<open>The lighting heuristic in the words of its description\<close>

text \<open>
  The materials of a model in traversal order, the pair of perceptual luminance and
  metalness of each material that has a base colour and a metalness, and the means over
  these pairs, with the neutral values for a model without such a material. The means are
  those of double arithmetic: the weighted sum of the channels, the sum over the materials
  in traversal order, the count and the quotient are each rounded.
\<close>

fun materialsOf :: "object3d \<Rightarrow> material list" where
  "materialsOf (Mesh materials kids) = materials @ concat (map materialsOf kids)"
| "materialsOf (Group kids) = concat (map materialsOf kids)"

fun qualifying :: "material list \<Rightarrow> (real \<times> real) list" where
  "qualifying [] = []"
| "qualifying (OtherMaterial # ms) = qualifying ms"
| "qualifying (MeshStandardMaterial (Color cr cg cb) metalness # ms) =
     (dadd (dadd (dmul cr (binary64 0.2126)) (dmul cg (binary64 0.7152)))
        (dmul cb (binary64 0.0722)), metalness) # qualifying ms"

definition doubleSum :: "real list \<Rightarrow> real" where
  "doubleSum xs = foldl dadd 0 xs"

definition doubleCount :: "'a list \<Rightarrow> real" where
  "doubleCount xs = foldl (\<lambda>n x. dadd n 1) 0 xs"

definition meanLuminance :: "object3d \<Rightarrow> real" where
  "meanLuminance obj =
     (let samples = qualifying (materialsOf obj)
      in if samples = [] then binary64 0.55
         else ddiv (doubleSum (map fst samples)) (doubleCount samples))"

definition meanMetalness :: "object3d \<Rightarrow> real" where
  "meanMetalness obj =
     (let samples = qualifying (materialsOf obj)
      in if samples = [] then 0
         else ddiv (doubleSum (map snd samples)) (doubleCount samples))"

definition addSamples :: "(real \<times> real) list \<Rightarrow> lookSample \<Rightarrow> lookSample" where
  "addSamples samples acc =
     acc\<lparr>luminanceSum := foldl dadd (luminanceSum acc) (map fst samples),
         metallicSum := foldl dadd (metallicSum acc) (map snd samples),
         materialCount := foldl (\<lambda>n x. dadd n 1) (materialCount acc) samples\<rparr>"

text \<open>
  glTF prescribes base colour channels and metalness within \<open>[0, 1]\<close>. The bands are stated
  for materials in this range, which keeps the sums of the heuristic away from the
  infinities that the model of doubles leaves out.
\<close>

fun unitRange :: "material \<Rightarrow> bool" where
  "unitRange OtherMaterial = True"
| "unitRange (MeshStandardMaterial (Color cr cg cb) metalness) =
     (0 \<le> cr \<and> cr \<le> 1 \<and> 0 \<le> cg \<and> cg \<le> 1 \<and> 0 \<le> cb \<and> cb \<le> 1
      \<and> 0 \<le> metalness \<and> metalness \<le> 1)"

definition appliedLook :: "viewer \<Rightarrow> nat option \<times> real option \<times> real option \<times> real option" where
  \<comment> \<open>background tone, exposure, fill and key light intensity, as the viewer has them\<close>
  "appliedLook st =
     (map_option background (scene st), map_option toneMappingExposure (renderer st),
      map_option intensity (fillLight st), map_option intensity (keyLight st))"

definition darkTone :: "nat \<Rightarrow> bool" where
  \<comment> \<open>a \<open>0xRRGGBB\<close> tone whose three channels are all below half intensity\<close>
  "darkTone c = (c div 65536 < 128 \<and> (c div 256) mod 256 < 128 \<and> c mod 256 < 128)"

definition blackModel :: model where
  "blackModel =
     \<lparr>graph = Group [Mesh [MeshStandardMaterial (Color 0 0 0) 0, OtherMaterial] []],
      bounds = \<lparr>boxMin = Vec3 0 0 0, boxMax = Vec3 1 1 1\<rparr>,
      modelPosition = Vec3 0 0 0\<rparr>"

definition whiteModel :: model where
  "whiteModel =
     \<lparr>graph = Group [Mesh [MeshStandardMaterial (Color 1 1 1) 0] []],
      bounds = \<lparr>boxMin = Vec3 0 0 0, boxMax = Vec3 1 1 1\<rparr>,
      modelPosition = Vec3 0 0 0\<rparr>"

text \<open>
  Two greys whose exact mean luminance is the low threshold, and two mid-grey materials
  whose exact mean metalness is the metalness threshold. The channel values are the doubles
  that the decimal numbers denote.
\<close>

definition greyPair :: model where
  "greyPair =
     \<lparr>graph = Group
        [Mesh [MeshStandardMaterial (Color (binary64 0.24) (binary64 0.24) (binary64 0.24)) 0] [],
         Mesh [MeshStandardMaterial (Color (binary64 0.44) (binary64 0.44) (binary64 0.44)) 0] []],
      bounds = \<lparr>boxMin = Vec3 0 0 0, boxMax = Vec3 1 1 1\<rparr>,
      modelPosition = Vec3 0 0 0\<rparr>"

definition metalPair :: model where
  "metalPair =
     \<lparr>graph = Mesh
        [MeshStandardMaterial (Color 0.5 0.5 0.5) (binary64 0.34),
         MeshStandardMaterial (Color 0.5 0.5 0.5) (binary64 0.56)] [],
      bounds = \<lparr>boxMin = Vec3 0 0 0, boxMax = Vec3 1 1 1\<rparr>,
      modelPosition = Vec3 0 0 0\<rparr>"

section \<open>Verification: the Path Normalizer\<close>

lemmas norm_eval = normalizeTwice_def normalizeAssetPath_def js_def stripBlobOrigin_def
  stripDotSlash_def stripSlash_def backslashesToSlashes_def beforeQueryOrHash_def
  parseHexOctet_def hexDigit_def leadingOnes_def

subsection \<open>Percent-decoding\<close>

lemma decode_no_percent: "0x25 \<notin> set s \<Longrightarrow> decodeURIComponent s = Inr s"
  by (induction s) auto

lemma hexDigit_percent: "hexDigit 0x25 = None"
  by (simp add: hexDigit_def)

lemma parseHexOctet_Some:
  "parseHexOctet h l = Some b \<Longrightarrow> hexDigit h \<noteq> None \<and> hexDigit l \<noteq> None"
  by (auto simp: parseHexOctet_def split: option.splits)

lemma escapedOctets_wellformed:
  "escapedOctets m s = Some bs \<Longrightarrow> j < 3 * m \<Longrightarrow> j < length s \<Longrightarrow> s ! j = 0x25 \<Longrightarrow>
     j + 2 < length s \<and> hexDigit (s ! (j + 1)) \<noteq> None \<and> hexDigit (s ! (j + 2)) \<noteq> None"
proof (induction m s arbitrary: j bs rule: escapedOctets.induct)
  case (1 s)
  then show ?case by simp
next
  case (2 m p h l s)
  from "2.prems"(1) obtain b bs' where
    p: "p = 0x25" and hx: "parseHexOctet h l = Some b" and rest: "escapedOctets m s = Some bs'"
    by (auto split: if_splits option.splits)
  have hh: "hexDigit h \<noteq> None" "hexDigit l \<noteq> None"
    using parseHexOctet_Some [OF hx] by simp_all
  show ?case
  proof (cases "j < 3")
    case True
    then consider "j = 0" | "j = 1" | "j = 2" by linarith
    then show ?thesis
    proof cases
      case 1 then show ?thesis using hh by simp
    next
      case 2 then show ?thesis using "2.prems"(4) hh hexDigit_percent by auto
    next
      case 3 then show ?thesis using "2.prems"(4) hh hexDigit_percent by auto
    qed
  next
    case False
    then obtain k where k: "j = k + 3" by (metis add.commute le_add_diff_inverse not_less)
    have "k + 2 < length s \<and> hexDigit (s ! (k + 1)) \<noteq> None \<and> hexDigit (s ! (k + 2)) \<noteq> None"
    proof (rule "2.IH" [OF _ hx rest])
      show "\<not> p \<noteq> 0x25" using p by simp
      show "k < 3 * m" using "2.prems"(2) k by simp
      show "k < length s" using "2.prems"(3) k by simp
      show "s ! k = 0x25" using "2.prems"(4) k by (simp add: numeral_3_eq_3)
    qed
    then show ?thesis using k by (simp add: numeral_3_eq_3)
  qed
qed simp_all


lemma decode_wellformed:
  "decodeURIComponent s = Inr r \<Longrightarrow> i < length s \<Longrightarrow> s ! i = 0x25 \<Longrightarrow>
     i + 2 < length s \<and> hexDigit (s ! (i + 1)) \<noteq> None \<and> hexDigit (s ! (i + 2)) \<noteq> None"
proof (induction "length s" arbitrary: s r i rule: less_induct)
  case less
  from less.prems(2) obtain c cs where s: "s = c # cs" by (cases s) auto
  show ?case
  proof (cases "c = 0x25")
    case False
    with less.prems(1) s obtain r' where r': "decodeURIComponent cs = Inr r'"
      by (auto split: sum.splits)
    from False less.prems(3) s obtain k where k: "i = Suc k" by (cases i) auto
    have "k + 2 < length cs \<and> hexDigit (cs ! (k + 1)) \<noteq> None \<and> hexDigit (cs ! (k + 2)) \<noteq> None"
      using less.hyps [of cs r' k] r' less.prems(2,3) s k by simp
    then show ?thesis using s k by simp
  next
    case True
    from less.prems(1) s True have len: "2 \<le> length cs"
      by (auto split: if_splits)
    from less.prems(1) s True len obtain b where hx: "parseHexOctet (cs ! 0) (cs ! 1) = Some b"
      by (auto split: if_splits option.splits)
    have hh: "hexDigit (cs ! 0) \<noteq> None" "hexDigit (cs ! 1) \<noteq> None"
      using parseHexOctet_Some [OF hx] by simp_all
    define n where "n = leadingOnes b"
    define rest where "rest = drop 2 cs"
    have dec0: "decodeURIComponent (0x25 # cs) = Inr r"
      using less.prems(1) unfolding s True .
    have unfold: "decodeURIComponent (0x25 # cs) =
      (if n = 0 then
         (case decodeURIComponent rest of Inl e \<Rightarrow> Inl e | Inr r \<Rightarrow> Inr (of_nat b # r))
       else if n = 1 \<or> n > 4 then Inl URIError
       else if length rest < 3 * (n - 1) then Inl URIError
       else (case escapedOctets (n - 1) rest of
               None \<Rightarrow> Inl URIError
             | Some bs \<Rightarrow>
                 (case utf8CodePoint (b # bs) of
                    None \<Rightarrow> Inl URIError
                  | Some cp \<Rightarrow>
                      (case decodeURIComponent (drop (3 * (n - 1)) rest) of
                         Inl e \<Rightarrow> Inl e
                       | Inr r \<Rightarrow> Inr (utf16EncodeCodePoint cp @ r)))))"
      unfolding n_def rest_def using len hx by (simp add: Let_def)
    have dec: "(if n = 0 then
         (case decodeURIComponent rest of Inl e \<Rightarrow> Inl e | Inr r \<Rightarrow> Inr (of_nat b # r))
       else if n = 1 \<or> n > 4 then Inl URIError
       else if length rest < 3 * (n - 1) then Inl URIError
       else (case escapedOctets (n - 1) rest of
               None \<Rightarrow> Inl URIError
             | Some bs \<Rightarrow>
                 (case utf8CodePoint (b # bs) of
                    None \<Rightarrow> Inl URIError
                  | Some cp \<Rightarrow>
                      (case decodeURIComponent (drop (3 * (n - 1)) rest) of
                         Inl e \<Rightarrow> Inl e
                       | Inr r \<Rightarrow> Inr (utf16EncodeCodePoint cp @ r))))) = Inr r"
      using dec0 unfolding unfold .
    show ?thesis
    proof (cases "i < 3")
      case True
      then consider "i = 0" | "i = 1" | "i = 2" by linarith
      then show ?thesis
      proof cases
        case 1 then show ?thesis using hh len s by simp
      next
        case 2 then show ?thesis using less.prems(3) hh hexDigit_percent s by auto
      next
        case 3 then show ?thesis using less.prems(3) hh hexDigit_percent s by (auto simp: numeral_2_eq_2)
      qed
    next
      case False
      then obtain k where k: "i = k + 3" by (metis add.commute le_add_diff_inverse not_less)
      have klen: "k < length rest" using less.prems(2) s k by (simp add: rest_def)
      have kth: "rest ! k = 0x25" using less.prems(3) s k klen by (simp add: rest_def numeral_3_eq_3 add.commute)
      have goal_rest: "k + 2 < length rest \<and> hexDigit (rest ! (k + 1)) \<noteq> None \<and> hexDigit (rest ! (k + 2)) \<noteq> None \<Longrightarrow> ?thesis"
        using s k len by (auto simp add: rest_def numeral_3_eq_3 add.commute add.left_commute)
      show ?thesis
      proof (cases "n = 0")
        case True
        with dec obtain r' where r': "decodeURIComponent rest = Inr r'"
          by (auto split: sum.splits)
        have "length rest < length s" using s by (simp add: rest_def)
        from less.hyps [OF this r' klen kth] show ?thesis by (rule goal_rest)
      next
        case n0: False
        with dec have n14: "\<not> (n = 1 \<or> n > 4)" and nlen: "\<not> length rest < 3 * (n - 1)"
          by (auto split: if_splits)
        with dec n0 obtain bs cp r' where
          eo: "escapedOctets (n - 1) rest = Some bs" and
          r': "decodeURIComponent (drop (3 * (n - 1)) rest) = Inr r'"
          by (auto split: option.splits sum.splits)
        show ?thesis
        proof (cases "k < 3 * (n - 1)")
          case True
          from escapedOctets_wellformed [OF eo True klen kth] show ?thesis by (rule goal_rest)
        next
          case False
          define t where "t = drop (3 * (n - 1)) rest"
          define q where "q = k - 3 * (n - 1)"
          have kq: "k = q + 3 * (n - 1)" using False by (simp add: q_def)
          have tl: "length t < length s" using s by (simp add: t_def rest_def)
          have ql: "q < length t" using klen kq by (simp add: t_def)
          have qth: "t ! q = 0x25" using kth kq nlen by (simp add: t_def add.commute)
          have "q + 2 < length t \<and> hexDigit (t ! (q + 1)) \<noteq> None \<and> hexDigit (t ! (q + 2)) \<noteq> None"
            using less.hyps [OF tl _ ql qth] r' by (simp add: t_def)
          then have "k + 2 < length rest \<and> hexDigit (rest ! (k + 1)) \<noteq> None \<and> hexDigit (rest ! (k + 2)) \<noteq> None"
            using kq nlen by (auto simp add: t_def add.commute add.left_commute)
          then show ?thesis by (rule goal_rest)
        qed
      qed
    qed
  qed
qed

lemma decode_malformed:
  assumes "i < length s" and "s ! i = 0x25"
    and "length s \<le> i + 2 \<or> hexDigit (s ! (i + 1)) = None \<or> hexDigit (s ! (i + 2)) = None"
  shows "decodeURIComponent s = Inl URIError"
proof (cases "decodeURIComponent s")
  case (Inl e)
  then show ?thesis by (cases e) simp
next
  case (Inr decoded)
  from decode_wellformed [OF Inr assms(1,2)] assms(3) show ?thesis by auto
qed

subsection \<open>The steps after decoding\<close>

lemma backslashes_free: "0x5C \<notin> set (backslashesToSlashes s)"
  by (auto simp: backslashesToSlashes_def)

lemma backslashes_id: "0x5C \<notin> set s \<Longrightarrow> backslashesToSlashes s = s"
  by (induction s) (auto simp: backslashesToSlashes_def)

lemma beforeQueryOrHash_free:
  "0x3F \<notin> set (beforeQueryOrHash s) \<and> 0x23 \<notin> set (beforeQueryOrHash s)"
  by (auto simp: beforeQueryOrHash_def dest: set_takeWhileD)

lemma beforeQueryOrHash_subset: "set (beforeQueryOrHash s) \<subseteq> set s"
  by (auto simp: beforeQueryOrHash_def dest: set_takeWhileD)

lemma beforeQueryOrHash_id:
  "0x3F \<notin> set s \<Longrightarrow> 0x23 \<notin> set s \<Longrightarrow> beforeQueryOrHash s = s"
  unfolding beforeQueryOrHash_def by (rule takeWhile_eq_all_conv [THEN iffD2]) auto

lemma normalizeAssetPath_result_clean:
  assumes "normalizeAssetPath s = Inr res"
  shows "0x5C \<notin> set res \<and> 0x3F \<notin> set res \<and> 0x23 \<notin> set res"
proof -
  from assms obtain d where res: "res = beforeQueryOrHash (backslashesToSlashes d)"
    by (auto simp: normalizeAssetPath_def split: sum.splits)
  have "0x5C \<notin> set res"
    using beforeQueryOrHash_subset [of "backslashesToSlashes d"] backslashes_free [of d]
    unfolding res by blast
  then show ?thesis using beforeQueryOrHash_free unfolding res by blast
qed

text \<open>
  Claim C3, as the code has it. \<open>normalizeAssetPath\<close> has no fallback for input that does
  not percent-decode: it returns a string exactly when \<open>decodeURIComponent\<close> does, which
  includes every input without a percent sign, and it throws URIError whenever some percent
  sign of the input is not followed by two hexadecimal digits.
\<close>

theorem normalizeAssetPath_throws_on_malformed:
  "(i < length s \<and> s ! i = 0x25
      \<and> (length s \<le> i + 2 \<or> hexDigit (s ! (i + 1)) = None \<or> hexDigit (s ! (i + 2)) = None)
      \<longrightarrow> normalizeAssetPath s = Inl URIError)
   \<and> (0x25 \<notin> set s \<longrightarrow> (\<exists>res. normalizeAssetPath s = Inr res))
   \<and> ((\<exists>res. normalizeAssetPath s = Inr res) \<longleftrightarrow> (\<exists>d. decodeURIComponent s = Inr d))"
proof (intro conjI impI)
  assume "i < length s \<and> s ! i = 0x25
      \<and> (length s \<le> i + 2 \<or> hexDigit (s ! (i + 1)) = None \<or> hexDigit (s ! (i + 2)) = None)"
  then have "decodeURIComponent s = Inl URIError"
    using decode_malformed [of i s] by blast
  then show "normalizeAssetPath s = Inl URIError"
    by (simp add: normalizeAssetPath_def)
next
  assume "0x25 \<notin> set s"
  then show "\<exists>res. normalizeAssetPath s = Inr res"
    by (simp add: normalizeAssetPath_def decode_no_percent)
next
  show "(\<exists>res. normalizeAssetPath s = Inr res) \<longleftrightarrow> (\<exists>d. decodeURIComponent s = Inr d)"
    by (auto simp: normalizeAssetPath_def split: sum.splits)
qed

theorem normalizeAssetPath_throws_on_malformed_witness:
  "normalizeAssetPath (js ''100%.png'') = Inl URIError
   \<and> (\<exists>res. normalizeAssetPath (js ''a.png'') = Inr res)"
proof -
  have "normalizeAssetPath (js ''100%.png'') = Inl URIError"
    using normalizeAssetPath_throws_on_malformed [of 3 "js ''100%.png''"]
    by (simp add: js_def hexDigit_def)
  moreover have "\<exists>res. normalizeAssetPath (js ''a.png'') = Inr res"
    using normalizeAssetPath_throws_on_malformed [of 0 "js ''a.png''"]
    by (simp add: js_def)
  ultimately show ?thesis by blast
qed

text \<open>
  Claim C3 as stated fails: on a lone percent sign \<open>normalizeAssetPath\<close> throws.
\<close>

theorem normalizeAssetPath_lone_percent_throws:
  "normalizeAssetPath (js ''%'') = Inl URIError"
  by (simp add: norm_eval)

text \<open>
  Claim C4, as the code has it. Normalizing a result again gives the same result whenever
  that result has no percent sign left and none of the three prefix-stripping steps (blob
  origin, \<open>./\<close> or \<open>/\<close>, a further \<open>/\<close>) applies to it.
\<close>

theorem normalizeAssetPath_idempotent_on_clean:
  assumes "normalizeAssetPath s = Inr res"
    and "0x25 \<notin> set res"
    and "stripBlobOrigin res = res" and "stripDotSlash res = res" and "stripSlash res = res"
  shows "normalizeAssetPath res = Inr res"
proof -
  have clean: "0x5C \<notin> set res" "0x3F \<notin> set res" "0x23 \<notin> set res"
    using normalizeAssetPath_result_clean [OF assms(1)] by simp_all
  have "decodeURIComponent res = Inr res"
    using assms(2) by (rule decode_no_percent)
  then show ?thesis
    using assms(3-5) clean
    by (simp add: normalizeAssetPath_def backslashes_id beforeQueryOrHash_id)
qed

theorem normalizeAssetPath_idempotent_on_clean_witness:
  "normalizeAssetPath (js ''./textures/robot.bin?v=1'') = Inr (js ''textures/robot.bin'')
   \<and> normalizeAssetPath (js ''textures/robot.bin'') = Inr (js ''textures/robot.bin'')"
proof -
  have 1: "normalizeAssetPath (js ''./textures/robot.bin?v=1'') = Inr (js ''textures/robot.bin'')"
    by (simp add: norm_eval)
  have 2: "0x25 \<notin> set (js ''textures/robot.bin'')"
    by (simp add: js_def)
  have 3: "stripBlobOrigin (js ''textures/robot.bin'') = js ''textures/robot.bin''"
    "stripDotSlash (js ''textures/robot.bin'') = js ''textures/robot.bin''"
    "stripSlash (js ''textures/robot.bin'') = js ''textures/robot.bin''"
    by (simp_all add: norm_eval)
  show ?thesis
    using normalizeAssetPath_idempotent_on_clean [OF 1 2 3] 1 by simp
qed

text \<open>
  Claim C4 as stated fails: of three leading slashes one pass strips two and the next pass
  the third, and an escaped percent sign is decoded once per pass.
\<close>

theorem normalizeAssetPath_not_idempotent:
  "normalizeAssetPath (js ''///a'') = Inr (js ''/a'')
   \<and> normalizeTwice (js ''///a'') = Inr (js ''a'')
   \<and> normalizeAssetPath (js ''%2541'') = Inr (js ''%41'')
   \<and> normalizeTwice (js ''%2541'') = Inr (js ''A'')"
  by (simp add: norm_eval)

section \<open>Verification: the Asset Index and the lookup\<close>

lemma map_of_fold_update:
  "map_of (fold (\<lambda>k. AList.update k v) ks m) k' = (if k' \<in> set ks then Some v else map_of m k')"
  by (induction ks arbitrary: m) (simp_all add: update_conv')

lemma indexFile_as_updates:
  assumes "indexFile rt m f = Inr m'"
  shows "\<exists>ks. \<forall>m0. indexFile rt m0 f = Inr (fold (\<lambda>k. AList.update k f) ks m0)"
proof -
  from assms obtain nm rel where nm: "normalizeAssetPath (name f) = Inr nm"
    and rel: "normalizeAssetPath (webkitRelativePath f) = Inr rel"
    by (auto simp: indexFile_def Let_def split: sum.splits)
  show ?thesis
  proof (cases "rel = []")
    case True
    have "\<forall>m0. indexFile rt m0 f = Inr (fold (\<lambda>k. AList.update k f) [nm, toLowerCase rt nm] m0)"
      using nm rel True by (simp add: indexFile_def Let_def)
    then show ?thesis ..
  next
    case False
    show ?thesis
    proof (cases "basename rel = []")
      case True
      have "\<forall>m0. indexFile rt m0 f =
              Inr (fold (\<lambda>k. AList.update k f) [nm, toLowerCase rt nm, rel, toLowerCase rt rel] m0)"
        using nm rel False True by (simp add: indexFile_def Let_def)
      then show ?thesis ..
    next
      case b: False
      have "\<forall>m0. indexFile rt m0 f =
              Inr (fold (\<lambda>k. AList.update k f)
                     [nm, toLowerCase rt nm, rel, toLowerCase rt rel, basename rel,
                      toLowerCase rt (basename rel)] m0)"
        using nm rel False b by (simp add: indexFile_def Let_def)
      then show ?thesis ..
    qed
  qed
qed

lemma indexFile_keys:
  assumes "indexFile rt m f = Inr m'"
  shows "\<exists>K. \<forall>m0. \<exists>m0'. indexFile rt m0 f = Inr m0'
            \<and> (\<forall>k. map_of m0' k = (if k \<in> K then Some f else map_of m0 k))"
proof -
  from indexFile_as_updates [OF assms] obtain ks where
    ks: "\<And>m0. indexFile rt m0 f = Inr (fold (\<lambda>k. AList.update k f) ks m0)"
    by blast
  have "\<forall>m0. \<exists>m0'. indexFile rt m0 f = Inr m0'
            \<and> (\<forall>k. map_of m0' k = (if k \<in> set ks then Some f else map_of m0 k))"
    using ks by (simp add: map_of_fold_update)
  then show ?thesis ..
qed

lemma indexFiles_binding_origin:
  "indexFiles rt m fs = Inr m' \<Longrightarrow> map_of m' k = Some g \<Longrightarrow>
     map_of m k = Some g
     \<or> (g \<in> set fs \<and> (\<exists>single. indexFile rt [] g = Inr single \<and> map_of single k = Some g))"
proof (induction fs arbitrary: m)
  case Nil
  then show ?case by simp
next
  case (Cons f fs)
  from Cons.prems(1) obtain m1 where m1: "indexFile rt m f = Inr m1"
    and rest: "indexFiles rt m1 fs = Inr m'"
    by (auto split: sum.splits)
  from indexFile_keys [OF m1] obtain K where K:
    "\<And>m0. \<exists>m0'. indexFile rt m0 f = Inr m0'
            \<and> (\<forall>k. map_of m0' k = (if k \<in> K then Some f else map_of m0 k))"
    by blast
  from K [of m] m1 have km: "\<And>k. map_of m1 k = (if k \<in> K then Some f else map_of m k)"
    by auto
  from K [of "[]"] obtain single where single: "indexFile rt [] f = Inr single"
    and ks: "\<And>k. map_of single k = (if k \<in> K then Some f else None)"
    by auto
  from Cons.IH [OF rest Cons.prems(2)] show ?case
  proof
    assume a: "map_of m1 k = Some g"
    show ?thesis
    proof (cases "k \<in> K")
      case True
      with a km have "g = f" by simp
      then show ?thesis using single ks True by auto
    next
      case False
      with a km show ?thesis by simp
    qed
  next
    assume "g \<in> set fs \<and> (\<exists>single. indexFile rt [] g = Inr single \<and> map_of single k = Some g)"
    then show ?thesis by auto
  qed
qed

lemma indexFiles_binding_stays:
  "indexFiles rt m fs = Inr m' \<Longrightarrow> map_of m k \<noteq> None \<Longrightarrow> map_of m' k \<noteq> None"
proof (induction fs arbitrary: m)
  case Nil
  then show ?case by simp
next
  case (Cons f fs)
  from Cons.prems(1) obtain m1 where m1: "indexFile rt m f = Inr m1"
    and rest: "indexFiles rt m1 fs = Inr m'"
    by (auto split: sum.splits)
  from indexFile_keys [OF m1] obtain K where K:
    "\<And>m0. \<exists>m0'. indexFile rt m0 f = Inr m0'
            \<and> (\<forall>k. map_of m0' k = (if k \<in> K then Some f else map_of m0 k))"
    by blast
  from K [of m] m1 have "map_of m1 k = (if k \<in> K then Some f else map_of m k)"
    by auto
  with Cons.prems(2) have "map_of m1 k \<noteq> None" by auto
  from Cons.IH [OF rest this] show ?case .
qed

lemma indexFiles_key_present:
  "indexFiles rt m fs = Inr m' \<Longrightarrow> f \<in> set fs \<Longrightarrow> indexFile rt [] f = Inr single \<Longrightarrow>
     map_of single k \<noteq> None \<Longrightarrow> map_of m' k \<noteq> None"
proof (induction fs arbitrary: m)
  case Nil
  then show ?case by simp
next
  case (Cons g fs)
  from Cons.prems(1) obtain m1 where m1: "indexFile rt m g = Inr m1"
    and rest: "indexFiles rt m1 fs = Inr m'"
    by (auto split: sum.splits)
  show ?case
  proof (cases "f \<in> set fs")
    case True
    from Cons.IH [OF rest True Cons.prems(3,4)] show ?thesis .
  next
    case False
    with Cons.prems(2) have fg: "g = f" by simp
    from indexFile_keys [OF m1] obtain K where K:
      "\<And>m0. \<exists>m0'. indexFile rt m0 g = Inr m0'
            \<and> (\<forall>k. map_of m0' k = (if k \<in> K then Some g else map_of m0 k))"
      by blast
    from K [of "[]"] Cons.prems(3,4) fg have "k \<in> K" by (auto split: if_splits)
    with K [of m] m1 have "map_of m1 k \<noteq> None" by auto
    from indexFiles_binding_stays [OF rest this] show ?thesis .
  qed
qed

lemma setAdd_append: "setAdd x xs = xs @ (if x \<in> set xs then [] else [x])"
  by (simp add: setAdd_def)

lemma addKey_extends:
  assumes "addKey rt keys v = Inr keys'"
  shows "\<exists>extra. keys' = keys @ extra"
proof -
  from assms obtain nz where nz: "normalizeAssetPath v = Inr nz"
    by (auto simp: addKey_def split: sum.splits)
  show ?thesis
    using assms nz
    by (auto simp: addKey_def Let_def setAdd_append split: if_splits)
qed

lemma candidateKeys_extends:
  assumes "addKey rt [] url = Inr keys"
  shows "\<exists>extra. candidateKeys rt url = Inr (keys @ extra)"
proof (cases "urlPathname rt url")
  case None
  then show ?thesis using assms by (simp add: candidateKeys_def)
next
  case (Some pathname)
  show ?thesis
  proof (cases "addKey rt keys pathname")
    case (Inl e)
    then show ?thesis using assms Some by (simp add: candidateKeys_def)
  next
    case (Inr keys')
    from addKey_extends [OF Inr] obtain extra where "keys' = keys @ extra" ..
    then show ?thesis using assms Some Inr by (simp add: candidateKeys_def)
  qed
qed

lemma firstMatch_append:
  "firstMatch m keys = Some f \<Longrightarrow> firstMatch m (keys @ extra) = Some f"
  by (induction keys) (auto split: option.splits)

lemma find_by_first_keys:
  assumes "addKey rt [] url = Inr keys" and "firstMatch m keys = Some f"
  shows "findAssetFileByUrl rt m url = Inr (Some f)"
proof -
  from candidateKeys_extends [OF assms(1)] obtain extra where
    "candidateKeys rt url = Inr (keys @ extra)" ..
  then show ?thesis
    using firstMatch_append [OF assms(2)] by (simp add: findAssetFileByUrl_def)
qed

lemmas key_eval = addKey_def norm_eval toLowerCase_def asciiLower_def basename_def setAdd_def
  Let_def

lemma addKey_dot_textures:
  "addKey rt [] (js ''./textures/robot.bin'') = Inr [js ''textures/robot.bin'', js ''robot.bin'']"
  by (simp add: key_eval)

lemma addKey_robot:
  "addKey rt [] (js ''robot.bin'') = Inr [js ''robot.bin'']"
  by (simp add: key_eval)

lemma addKey_upper:
  "addKey rt [] (js ''TEXTURES/ROBOT.BIN'') =
     Inr [js ''TEXTURES/ROBOT.BIN'', js ''textures/robot.bin'', js ''ROBOT.BIN'', js ''robot.bin'']"
  by (simp add: key_eval)

lemma robot_single:
  assumes "name f = js ''Robot.BIN''" and "webkitRelativePath f = js ''textures/Robot.BIN''"
  shows "indexFile rt [] f =
    Inr (fold (\<lambda>k. AList.update k f)
      [js ''Robot.BIN'', js ''robot.bin'', js ''textures/Robot.BIN'', js ''textures/robot.bin'',
       js ''Robot.BIN'', js ''robot.bin''] [])"
  using assms by (simp add: indexFile_def key_eval)

lemma buildAssetMap_single: "buildAssetMap rt [f] = indexFile rt [] f"
  by (simp add: buildAssetMap_def split: sum.splits)

lemma index_lookup_unique:
  assumes built: "buildAssetMap rt fs = Inr m"
    and mem: "f \<in> set fs"
    and own: "indexedUnder rt f k"
    and others: "\<forall>g\<in>set fs. g \<noteq> f \<longrightarrow> \<not> indexedUnder rt g k"
  shows "map_of m k = Some f"
proof -
  from own obtain single where single: "indexFile rt [] f = Inr single"
    and has: "map_of single k \<noteq> None"
    by (auto simp: indexedUnder_def buildAssetMap_single split: sum.splits)
  from built have fs: "indexFiles rt [] fs = Inr m"
    by (simp add: buildAssetMap_def)
  from indexFiles_key_present [OF fs mem single has] obtain g where g: "map_of m k = Some g"
    by auto
  from indexFiles_binding_origin [OF fs g]
  have "g \<in> set fs" and "indexedUnder rt g k"
    by (auto simp: indexedUnder_def buildAssetMap_single)
  with others have "g = f" by blast
  with g show ?thesis by simp
qed

lemma index_lookup_none_or_own:
  assumes built: "buildAssetMap rt fs = Inr m"
    and others: "\<forall>g\<in>set fs. g \<noteq> f \<longrightarrow> \<not> indexedUnder rt g k"
  shows "map_of m k = None \<or> map_of m k = Some f"
proof (cases "map_of m k")
  case None
  then show ?thesis by simp
next
  case (Some g)
  from built have fs: "indexFiles rt [] fs = Inr m"
    by (simp add: buildAssetMap_def)
  from indexFiles_binding_origin [OF fs Some]
  have "g \<in> set fs" and "indexedUnder rt g k"
    by (auto simp: indexedUnder_def buildAssetMap_single)
  with others have "g = f" by blast
  with Some show ?thesis by simp
qed

lemma robot_keys:
  assumes "name f = js ''Robot.BIN''" and "webkitRelativePath f = js ''textures/Robot.BIN''"
  shows "indexedUnder rt f (js ''textures/robot.bin'')" and "indexedUnder rt f (js ''robot.bin'')"
  using robot_single [OF assms, of rt]
  by (simp_all add: indexedUnder_def buildAssetMap_single map_of_fold_update js_def del: fold_simps)

lemmas index_eval = buildAssetMap_def indexFile_def key_eval

text \<open>
  Claim C7, as the code has it. A later file with the same key overwrites the entry of an
  earlier one, so the three references resolve to the file named \<open>Robot.BIN\<close> with relative
  path \<open>textures/Robot.BIN\<close> in every file set on which \<open>buildAssetMap\<close> returns and in
  which no other file is indexed under \<open>textures/robot.bin\<close>, \<open>robot.bin\<close> or
  \<open>TEXTURES/ROBOT.BIN\<close>. This holds whatever the document's location is.
\<close>

theorem robot_resolves_when_unshadowed:
  assumes built: "buildAssetMap rt fs = Inr m"
    and mem: "f \<in> set fs"
    and nm: "name f = js ''Robot.BIN''"
    and rel: "webkitRelativePath f = js ''textures/Robot.BIN''"
    and others: "\<forall>g\<in>set fs. g \<noteq> f \<longrightarrow>
        \<not> indexedUnder rt g (js ''textures/robot.bin'')
        \<and> \<not> indexedUnder rt g (js ''robot.bin'')
        \<and> \<not> indexedUnder rt g (js ''TEXTURES/ROBOT.BIN'')"
  shows "resolveAgainst rt fs (js ''./textures/robot.bin'') = Inr (Some f)
       \<and> resolveAgainst rt fs (js ''robot.bin'') = Inr (Some f)
       \<and> resolveAgainst rt fs (js ''TEXTURES/ROBOT.BIN'') = Inr (Some f)"
proof -
  have path: "map_of m (js ''textures/robot.bin'') = Some f"
    using index_lookup_unique [OF built mem robot_keys(1) [OF nm rel]] others by blast
  have base: "map_of m (js ''robot.bin'') = Some f"
    using index_lookup_unique [OF built mem robot_keys(2) [OF nm rel]] others by blast
  have upper: "map_of m (js ''TEXTURES/ROBOT.BIN'') = None
      \<or> map_of m (js ''TEXTURES/ROBOT.BIN'') = Some f"
    using index_lookup_none_or_own [OF built, of f "js ''TEXTURES/ROBOT.BIN''"] others by blast
  have 1: "findAssetFileByUrl rt m (js ''./textures/robot.bin'') = Inr (Some f)"
    by (rule find_by_first_keys [OF addKey_dot_textures]) (simp add: path)
  have 2: "findAssetFileByUrl rt m (js ''robot.bin'') = Inr (Some f)"
    by (rule find_by_first_keys [OF addKey_robot]) (simp add: base)
  have 3: "findAssetFileByUrl rt m (js ''TEXTURES/ROBOT.BIN'') = Inr (Some f)"
    by (rule find_by_first_keys [OF addKey_upper]) (use upper path in auto)
  show ?thesis using built 1 2 3 by (simp add: resolveAgainst_def)
qed

theorem robot_resolves_when_unshadowed_witness:
  "resolveAgainst sampleRuntime [sceneFile, robotFile] (js ''./textures/robot.bin'')
     = Inr (Some robotFile)
   \<and> resolveAgainst sampleRuntime [sceneFile, robotFile] (js ''robot.bin'') = Inr (Some robotFile)
   \<and> resolveAgainst sampleRuntime [sceneFile, robotFile] (js ''TEXTURES/ROBOT.BIN'')
     = Inr (Some robotFile)"
proof -
  obtain m where built: "buildAssetMap sampleRuntime [sceneFile, robotFile] = Inr m"
    by (simp add: index_eval sceneFile_def robotFile_def sampleRuntime_def)
  have mem: "robotFile \<in> set [sceneFile, robotFile]"
    by simp
  have nm: "name robotFile = js ''Robot.BIN''"
    and rel: "webkitRelativePath robotFile = js ''textures/Robot.BIN''"
    by (simp_all add: robotFile_def)
  have "\<not> indexedUnder sampleRuntime sceneFile (js ''textures/robot.bin'')
        \<and> \<not> indexedUnder sampleRuntime sceneFile (js ''robot.bin'')
        \<and> \<not> indexedUnder sampleRuntime sceneFile (js ''TEXTURES/ROBOT.BIN'')"
    by (simp add: indexedUnder_def index_eval sceneFile_def)
  then have others: "\<forall>g\<in>set [sceneFile, robotFile]. g \<noteq> robotFile \<longrightarrow>
        \<not> indexedUnder sampleRuntime g (js ''textures/robot.bin'')
        \<and> \<not> indexedUnder sampleRuntime g (js ''robot.bin'')
        \<and> \<not> indexedUnder sampleRuntime g (js ''TEXTURES/ROBOT.BIN'')"
    by simp
  show ?thesis
    by (rule robot_resolves_when_unshadowed [OF built mem nm rel others])
qed

text \<open>
  Claim C7 as stated fails: in a file set that also holds a file named \<open>robot.bin\<close> after
  \<open>Robot.BIN\<close>, the reference \<open>robot.bin\<close> resolves to that other file, while
  \<open>./textures/robot.bin\<close> still resolves to \<open>Robot.BIN\<close>.
\<close>

theorem robot_shadowed_by_later_file:
  "resolveAgainst sampleRuntime [robotFile, shadowFile] (js ''robot.bin'') = Inr (Some shadowFile)
   \<and> resolveAgainst sampleRuntime [robotFile, shadowFile] (js ''./textures/robot.bin'')
       = Inr (Some robotFile)
   \<and> shadowFile \<noteq> robotFile"
  by (simp add: resolveAgainst_def findAssetFileByUrl_def candidateKeys_def index_eval
      shadowFile_def robotFile_def sampleRuntime_def)

section \<open>Verification: the lifecycle of object URLs\<close>

lemma fold_revokeObjectURL:
  "fold revokeObjectURL xs st = st\<lparr>revokedUrls := revokedUrls st @ xs\<rparr>"
  by (induction xs arbitrary: st) (simp_all add: revokeObjectURL_def)

lemma revokeTransient_eq:
  "revokeTransientResourceUrls st =
     st\<lparr>revokedUrls := revokedUrls st @ transientResourceUrls st, transientResourceUrls := []\<rparr>"
  by (simp add: revokeTransientResourceUrls_def fold_revokeObjectURL)

lemma revokeTracked_eq:
  "revokeTrackedUrl url st =
     (if url \<in> set (trackedObjectUrls st)
      then st\<lparr>revokedUrls := revokedUrls st @ [url],
              trackedObjectUrls := removeAll url (trackedObjectUrls st)\<rparr>
      else st)"
  by (simp add: revokeTrackedUrl_def revokeObjectURL_def)

text \<open>The functions that touch no object URL.\<close>

lemma clearModel_handles [simp]:
  "trackedObjectUrls (clearModel st) = trackedObjectUrls st"
  "transientResourceUrls (clearModel st) = transientResourceUrls st"
  "revokedUrls (clearModel st) = revokedUrls st"
  "nextObjectUrl (clearModel st) = nextObjectUrl st"
  "pendingLoads (clearModel st) = pendingLoads st"
  by (simp_all add: clearModel_def split: option.splits)

lemma frameModel_handles [simp]:
  "trackedObjectUrls (frameModel m st) = trackedObjectUrls st"
  "transientResourceUrls (frameModel m st) = transientResourceUrls st"
  "revokedUrls (frameModel m st) = revokedUrls st"
  "nextObjectUrl (frameModel m st) = nextObjectUrl st"
  "pendingLoads (frameModel m st) = pendingLoads st"
  by (simp_all add: frameModel_def Let_def split: option.splits)

lemma applyAdaptiveSceneLook_handles [simp]:
  "trackedObjectUrls (applyAdaptiveSceneLook m st) = trackedObjectUrls st"
  "transientResourceUrls (applyAdaptiveSceneLook m st) = transientResourceUrls st"
  "revokedUrls (applyAdaptiveSceneLook m st) = revokedUrls st"
  "nextObjectUrl (applyAdaptiveSceneLook m st) = nextObjectUrl st"
  "pendingLoads (applyAdaptiveSceneLook m st) = pendingLoads st"
  by (simp_all add: applyAdaptiveSceneLook_def Let_def split: option.splits)

lemma onLoadSuccess_handles:
  "scene st \<noteq> None \<Longrightarrow>
     trackedObjectUrls (onLoadSuccess req g st) = removeAll (mainUrl req) (trackedObjectUrls st)
     \<and> transientResourceUrls (onLoadSuccess req g st) = []
     \<and> revokedUrls (onLoadSuccess req g st) =
         revokedUrls st
           @ (if mainUrl req \<in> set (trackedObjectUrls st) then [mainUrl req] else [])
           @ transientResourceUrls st
     \<and> nextObjectUrl (onLoadSuccess req g st) = nextObjectUrl st
     \<and> pendingLoads (onLoadSuccess req g st) = pendingLoads st"
  by (auto simp add: onLoadSuccess_def Let_def revokeTransient_eq revokeTracked_eq)

lemma onLoadError_handles:
  "trackedObjectUrls (onLoadError req err st) = removeAll (mainUrl req) (trackedObjectUrls st)
     \<and> transientResourceUrls (onLoadError req err st) = []
     \<and> revokedUrls (onLoadError req err st) =
         revokedUrls st
           @ (if mainUrl req \<in> set (trackedObjectUrls st) then [mainUrl req] else [])
           @ transientResourceUrls st
     \<and> nextObjectUrl (onLoadError req err st) = nextObjectUrl st
     \<and> pendingLoads (onLoadError req err st) = pendingLoads st"
  by (simp add: onLoadError_def Let_def revokeTransient_eq revokeTracked_eq)

lemma onBeforeUnmount_handles:
  "trackedObjectUrls (onBeforeUnmount st) = []
     \<and> transientResourceUrls (onBeforeUnmount st) = []
     \<and> revokedUrls (onBeforeUnmount st) =
         revokedUrls st @ transientResourceUrls st @ trackedObjectUrls st
     \<and> nextObjectUrl (onBeforeUnmount st) = nextObjectUrl st
     \<and> pendingLoads (onBeforeUnmount st) = pendingLoads st"
  by (simp add: onBeforeUnmount_def Let_def revokeTransient_eq fold_revokeObjectURL)

lemma accounted_move_tracked:
  assumes "distinct (tr @ ts @ rv)" and "set (tr @ ts @ rv) = {..<n}"
  shows "distinct (removeAll u tr @ [] @ (rv @ (if u \<in> set tr then [u] else []) @ ts))
       \<and> set (removeAll u tr @ [] @ (rv @ (if u \<in> set tr then [u] else []) @ ts)) = {..<n::nat}"
  using assms by (auto simp: distinct_removeAll)

lemma onLoadSuccess_accounted:
  assumes "handlesAccounted st"
  shows "handlesAccounted (onLoadSuccess req g st)"
proof (cases "scene st = None")
  case True
  then show ?thesis using assms by (simp add: onLoadSuccess_def)
next
  case False
  show ?thesis
    using assms accounted_move_tracked [of "trackedObjectUrls st" "transientResourceUrls st"
        "revokedUrls st" "nextObjectUrl st" "mainUrl req"]
    unfolding handlesAccounted_def
    by (simp only: onLoadSuccess_handles [OF False])
qed

lemma onLoadError_accounted:
  assumes "handlesAccounted st"
  shows "handlesAccounted (onLoadError req err st)"
  using assms accounted_move_tracked [of "trackedObjectUrls st" "transientResourceUrls st"
      "revokedUrls st" "nextObjectUrl st" "mainUrl req"]
  unfolding handlesAccounted_def
  by (simp only: onLoadError_handles)

lemma onBeforeUnmount_accounted:
  assumes "handlesAccounted st"
  shows "handlesAccounted (onBeforeUnmount st)"
  using assms unfolding handlesAccounted_def
  by (auto simp: onBeforeUnmount_handles)

lemma revokeTransient_accounted:
  assumes "handlesAccounted st"
  shows "handlesAccounted (revokeTransientResourceUrls st)"
  using assms unfolding handlesAccounted_def
  by (auto simp: revokeTransient_eq)

lemma loadModelFromFileSet_handles:
  assumes "loadModelFromFileSet rt fs st = Inr st'"
  shows "(trackedObjectUrls st' = trackedObjectUrls st
          \<and> nextObjectUrl st' = nextObjectUrl st
          \<and> pendingLoads st' = pendingLoads st
          \<or> (\<exists>mf. trackedObjectUrls st' = setAdd (nextObjectUrl st) (trackedObjectUrls st)
              \<and> nextObjectUrl st' = Suc (nextObjectUrl st)
              \<and> pendingLoads st' = pendingLoads st
                   @ [\<lparr>mainUrl = nextObjectUrl st, mainFile = mf, files = fs\<rparr>]))
         \<and> transientResourceUrls st' = transientResourceUrls st
         \<and> revokedUrls st' = revokedUrls st"
  using assms
  by (auto simp: loadModelFromFileSet_def Let_def createObjectURL_def addTrackedUrl_def
      split: if_splits option.splits sum.splits)

lemma accounted_members:
  "(set (tr @ ts @ rv) = {..<n::nat})
     = (\<forall>x. (x \<in> set tr \<or> x \<in> set ts \<or> x \<in> set rv) = (x < n))"
  by auto

lemma accounted_add_tracked:
  assumes "distinct (tr @ ts @ rv)" and "set (tr @ ts @ rv) = {..<n::nat}"
  shows "distinct ((tr @ [n]) @ ts @ rv) \<and> set ((tr @ [n]) @ ts @ rv) = {..<Suc n}"
proof -
  from assms(2) have mem: "\<And>x. (x \<in> set tr \<or> x \<in> set ts \<or> x \<in> set rv) = (x < n)"
    by (simp only: accounted_members)
  from mem [of n] have fresh: "n \<notin> set tr" "n \<notin> set ts" "n \<notin> set rv"
    by simp_all
  have "set ((tr @ [n]) @ ts @ rv) = insert n (set (tr @ ts @ rv))"
    by auto
  then have "set ((tr @ [n]) @ ts @ rv) = {..<Suc n}"
    using assms(2) by (simp add: lessThan_Suc)
  moreover have "distinct ((tr @ [n]) @ ts @ rv)"
    using assms(1) fresh by auto
  ultimately show ?thesis by blast
qed

lemma accounted_add_transient:
  assumes "distinct (tr @ ts @ rv)" and "set (tr @ ts @ rv) = {..<n::nat}"
  shows "distinct (tr @ (ts @ [n]) @ rv) \<and> set (tr @ (ts @ [n]) @ rv) = {..<Suc n}"
proof -
  from assms(2) have mem: "\<And>x. (x \<in> set tr \<or> x \<in> set ts \<or> x \<in> set rv) = (x < n)"
    by (simp only: accounted_members)
  from mem [of n] have fresh: "n \<notin> set tr" "n \<notin> set ts" "n \<notin> set rv"
    by simp_all
  have "set (tr @ (ts @ [n]) @ rv) = insert n (set (tr @ ts @ rv))"
    by auto
  then have "set (tr @ (ts @ [n]) @ rv) = {..<Suc n}"
    using assms(2) by (simp add: lessThan_Suc)
  moreover have "distinct (tr @ (ts @ [n]) @ rv)"
    using assms(1) fresh by auto
  ultimately show ?thesis by blast
qed

lemma fresh_not_accounted:
  assumes "handlesAccounted st"
  shows "nextObjectUrl st \<notin> set (trackedObjectUrls st)"
    and "nextObjectUrl st \<notin> set (transientResourceUrls st)"
    and "nextObjectUrl st \<notin> set (revokedUrls st)"
  using assms unfolding handlesAccounted_def by auto

lemma loadModelFromFileSet_accounted:
  assumes "loadModelFromFileSet rt fs st = Inr st'" and "handlesAccounted st"
  shows "handlesAccounted st'"
proof -
  have fresh: "nextObjectUrl st \<notin> set (trackedObjectUrls st)"
    by (rule fresh_not_accounted [OF assms(2)])
  from loadModelFromFileSet_handles [OF assms(1)]
  have rest: "transientResourceUrls st' = transientResourceUrls st"
    "revokedUrls st' = revokedUrls st"
    by simp_all
  from loadModelFromFileSet_handles [OF assms(1)]
  consider "trackedObjectUrls st' = trackedObjectUrls st" "nextObjectUrl st' = nextObjectUrl st"
    | "trackedObjectUrls st' = trackedObjectUrls st @ [nextObjectUrl st]"
      "nextObjectUrl st' = Suc (nextObjectUrl st)"
    using fresh by (auto simp: setAdd_def)
  then show ?thesis
  proof cases
    case 1
    then show ?thesis using assms(2) rest by (simp add: handlesAccounted_def)
  next
    case 2
    then show ?thesis
      using assms(2) rest
        accounted_add_tracked [of "trackedObjectUrls st" "transientResourceUrls st"
          "revokedUrls st" "nextObjectUrl st"]
      by (simp add: handlesAccounted_def)
  qed
qed

lemma resolveAssetUrl_handles:
  assumes "resolveAssetUrl rt url st = Inr (u, st')"
  shows "(transientResourceUrls st' = transientResourceUrls st
          \<and> nextObjectUrl st' = nextObjectUrl st
          \<or> transientResourceUrls st' = transientResourceUrls st @ [nextObjectUrl st]
              \<and> nextObjectUrl st' = Suc (nextObjectUrl st) \<and> u = ObjectUrl (nextObjectUrl st))
         \<and> trackedObjectUrls st' = trackedObjectUrls st
         \<and> revokedUrls st' = revokedUrls st
         \<and> pendingLoads st' = pendingLoads st"
  using assms
  by (auto simp: resolveAssetUrl_def Let_def createObjectURL_def
      split: if_splits option.splits sum.splits)

lemma resolveAssetUrl_accounted:
  assumes "resolveAssetUrl rt url st = Inr (u, st')" and "handlesAccounted st"
  shows "handlesAccounted st'"
proof -
  from resolveAssetUrl_handles [OF assms(1)]
  have rest: "trackedObjectUrls st' = trackedObjectUrls st"
    "revokedUrls st' = revokedUrls st"
    by simp_all
  from resolveAssetUrl_handles [OF assms(1)]
  consider "transientResourceUrls st' = transientResourceUrls st"
      "nextObjectUrl st' = nextObjectUrl st"
    | "transientResourceUrls st' = transientResourceUrls st @ [nextObjectUrl st]"
      "nextObjectUrl st' = Suc (nextObjectUrl st)"
    by auto
  then show ?thesis
  proof cases
    case 1
    then show ?thesis using assms(2) rest by (simp add: handlesAccounted_def)
  next
    case 2
    then show ?thesis
      using assms(2) rest
        accounted_add_transient [of "trackedObjectUrls st" "transientResourceUrls st"
          "revokedUrls st" "nextObjectUrl st"]
      by (simp add: handlesAccounted_def)
  qed
qed

lemma pending_update_accounted [simp]:
  "handlesAccounted (st\<lparr>pendingLoads := p\<rparr>) = handlesAccounted st"
  by (simp add: handlesAccounted_def)

lemma step_accounted:
  assumes "handlesAccounted st"
  shows "handlesAccounted (step rt st ev)"
proof (cases ev)
  case (FilesProvided fs)
  then show ?thesis
    using assms loadModelFromFileSet_accounted [of rt fs st]
    by (auto split: sum.splits)
next
  case (ResourceRequested url)
  then show ?thesis
    using assms resolveAssetUrl_accounted [of rt url st]
    by (auto split: sum.splits)
next
  case (LoadSucceeded req g)
  then show ?thesis
    using assms by (simp add: onLoadSuccess_accounted)
next
  case (LoadFailed req err)
  then show ?thesis
    using assms by (simp add: onLoadError_accounted)
next
  case ManagerIdle
  then show ?thesis
    using assms by (simp add: revokeTransient_accounted)
next
  case Unmounted
  then show ?thesis
    using assms by (simp add: onBeforeUnmount_accounted)
qed

lemma run_accounted:
  "handlesAccounted st \<Longrightarrow> handlesAccounted (run rt evs st)"
  unfolding run_def by (induction evs arbitrary: st) (simp_all add: step_accounted)

lemma run_append: "run rt (evs @ evs') st = run rt evs' (run rt evs st)"
  by (simp add: run_def)

lemma run_single: "run rt [ev] st = step rt st ev"
  by (simp add: run_def)

lemma mounted_accounted: "handlesAccounted mountedViewer"
  by (simp add: handlesAccounted_def mountedViewer_def onMounted_def initialViewer_def)

lemma primaries_mono:
  assumes "primariesAccounted st"
    and "set (pendingLoads st') \<subseteq> set (pendingLoads st)"
    and "set (trackedObjectUrls st) \<union> set (revokedUrls st)
           \<subseteq> set (trackedObjectUrls st') \<union> set (revokedUrls st')"
  shows "primariesAccounted st'"
  using assms unfolding primariesAccounted_def list_all_iff by blast

lemma pending_remove1_primaries:
  assumes "primariesAccounted st"
  shows "primariesAccounted (st\<lparr>pendingLoads := remove1 req (pendingLoads st)\<rparr>)"
proof (rule primaries_mono [OF assms])
  show "set (pendingLoads (st\<lparr>pendingLoads := remove1 req (pendingLoads st)\<rparr>))
          \<subseteq> set (pendingLoads st)"
    using set_remove1_subset [of req "pendingLoads st"] by simp
  show "set (trackedObjectUrls st) \<union> set (revokedUrls st)
          \<subseteq> set (trackedObjectUrls (st\<lparr>pendingLoads := remove1 req (pendingLoads st)\<rparr>))
            \<union> set (revokedUrls (st\<lparr>pendingLoads := remove1 req (pendingLoads st)\<rparr>))"
    by simp
qed

lemma onLoadSuccess_primaries:
  assumes "primariesAccounted st"
  shows "primariesAccounted (onLoadSuccess req g st)"
proof (cases "scene st = None")
  case True
  then show ?thesis using assms by (simp add: onLoadSuccess_def)
next
  case False
  show ?thesis
    by (rule primaries_mono [OF assms]) (auto simp: onLoadSuccess_handles [OF False])
qed

lemma onLoadError_primaries:
  assumes "primariesAccounted st"
  shows "primariesAccounted (onLoadError req err st)"
  by (rule primaries_mono [OF assms]) (auto simp: onLoadError_handles)

lemma onBeforeUnmount_primaries:
  assumes "primariesAccounted st"
  shows "primariesAccounted (onBeforeUnmount st)"
  by (rule primaries_mono [OF assms]) (auto simp: onBeforeUnmount_handles)

lemma revokeTransient_primaries:
  assumes "primariesAccounted st"
  shows "primariesAccounted (revokeTransientResourceUrls st)"
  by (rule primaries_mono [OF assms]) (auto simp: revokeTransient_eq)

lemma loadModelFromFileSet_primaries:
  assumes "loadModelFromFileSet rt fs st = Inr st'" and "primariesAccounted st"
  shows "primariesAccounted st'"
  using loadModelFromFileSet_handles [OF assms(1)] assms(2)
  unfolding primariesAccounted_def list_all_iff
  by (auto simp: setAdd_def)

lemma resolveAssetUrl_primaries:
  assumes "resolveAssetUrl rt url st = Inr (u, st')" and "primariesAccounted st"
  shows "primariesAccounted st'"
  using resolveAssetUrl_handles [OF assms(1)] assms(2)
  unfolding primariesAccounted_def list_all_iff
  by auto

lemma step_primaries:
  assumes "primariesAccounted st"
  shows "primariesAccounted (step rt st ev)"
proof (cases ev)
  case (FilesProvided fs)
  then show ?thesis
    using assms loadModelFromFileSet_primaries [of rt fs st]
    by (auto split: sum.splits)
next
  case (ResourceRequested url)
  then show ?thesis
    using assms resolveAssetUrl_primaries [of rt url st]
    by (auto split: sum.splits)
next
  case (LoadSucceeded req g)
  then show ?thesis
    using assms by (simp add: onLoadSuccess_primaries pending_remove1_primaries)
next
  case (LoadFailed req err)
  then show ?thesis
    using assms by (simp add: onLoadError_primaries pending_remove1_primaries)
next
  case ManagerIdle
  then show ?thesis
    using assms by (simp add: revokeTransient_primaries)
next
  case Unmounted
  then show ?thesis
    using assms by (simp add: onBeforeUnmount_primaries)
qed

lemma run_primaries:
  "primariesAccounted st \<Longrightarrow> primariesAccounted (run rt evs st)"
  unfolding run_def by (induction evs arbitrary: st) (simp_all add: step_primaries)

lemma mounted_primaries: "primariesAccounted mountedViewer"
  by (simp add: primariesAccounted_def mountedViewer_def onMounted_def initialViewer_def)

lemma loadModelFromFileSet_starts:
  assumes "gltfLoader st" and "scene st \<noteq> None"
    and "find (isModelFile rt) fs = Some mf" and "buildAssetMap rt fs = Inr m"
  shows "loadModelFromFileSet rt fs st =
     Inr (st\<lparr>assetMap := m,
             nextObjectUrl := Suc (nextObjectUrl st),
             trackedObjectUrls := setAdd (nextObjectUrl st) (trackedObjectUrls st),
             isLoading := True,
             statusText := loadingMessage (name mf),
             pendingLoads := pendingLoads st
               @ [\<lparr>mainUrl = nextObjectUrl st, mainFile = mf, files = fs\<rparr>]\<rparr>)"
  using assms
  by (auto simp add: loadModelFromFileSet_def Let_def createObjectURL_def addTrackedUrl_def)

lemmas file_eval = sceneFile_def robotFile_def shadowFile_def secondScene_def

lemma find_first: "find (isModelFile sampleRuntime) [sceneFile, robotFile] = Some sceneFile"
  by (simp add: isModelFile_def endsWith_def toLowerCase_def asciiLower_def js_def file_eval)

lemma find_second: "find (isModelFile sampleRuntime) [secondScene, shadowFile] = Some secondScene"
  by (simp add: isModelFile_def endsWith_def toLowerCase_def asciiLower_def js_def file_eval)

lemma built_first: "\<exists>m. buildAssetMap sampleRuntime [sceneFile, robotFile] = Inr m"
  by (simp add: index_eval file_eval)

lemma built_second:
  "\<exists>m. buildAssetMap sampleRuntime [secondScene, shadowFile] = Inr m
       \<and> m \<noteq> [] \<and> findAssetFileByUrl sampleRuntime m (js ''robot.bin'') = Inr (Some shadowFile)"
  by (simp add: index_eval file_eval findAssetFileByUrl_def candidateKeys_def sampleRuntime_def)

lemma mounted_live: "gltfLoader mountedViewer" "scene mountedViewer \<noteq> None"
  by (simp_all add: mountedViewer_def onMounted_def)

lemma mounted_handles:
  "trackedObjectUrls mountedViewer = []" "transientResourceUrls mountedViewer = []"
  "revokedUrls mountedViewer = []" "nextObjectUrl mountedViewer = 0"
  "pendingLoads mountedViewer = []"
  by (simp_all add: mountedViewer_def onMounted_def initialViewer_def)

lemma overlapping_state:
  "trackedObjectUrls (run sampleRuntime overlappingLoads mountedViewer) = [0, 1]
   \<and> transientResourceUrls (run sampleRuntime overlappingLoads mountedViewer) = [2]
   \<and> revokedUrls (run sampleRuntime overlappingLoads mountedViewer) = []
   \<and> pendingLoads (run sampleRuntime overlappingLoads mountedViewer) = [firstLoad, secondLoad]
   \<and> scene (run sampleRuntime overlappingLoads mountedViewer) \<noteq> None
   \<and> nextObjectUrl (run sampleRuntime overlappingLoads mountedViewer) = 3"
proof -
  from built_first obtain m1 where m1: "buildAssetMap sampleRuntime [sceneFile, robotFile] = Inr m1"
    by blast
  from built_second obtain m2 where
    m2: "buildAssetMap sampleRuntime [secondScene, shadowFile] = Inr m2"
    and ne: "m2 \<noteq> []"
    and hit: "findAssetFileByUrl sampleRuntime m2 (js ''robot.bin'') = Inr (Some shadowFile)"
    by blast
  have nodata: "\<not> isDataUri (js ''robot.bin'')"
    by (simp add: isDataUri_def js_def asciiLower_def)
  show ?thesis
    using m1 m2 ne hit nodata find_first find_second mounted_live mounted_handles
    by (simp add: run_def overlappingLoads_def loadModelFromFileSet_starts setAdd_def
        resolveAssetUrl_def createObjectURL_def firstLoad_def secondLoad_def)
qed

text \<open>
  Claim C1, as the code has it. The tracked set and the transient list are two pools of the
  whole session, not of one load. After any sequence of events on a mounted viewer, every
  object URL created so far is in exactly one of the tracked set, the transient list and
  the log of revocations, and occurs there once: none is revoked twice and none is lost.
  Unmounting empties both pools, so at that point every URL created has been revoked
  exactly once.
\<close>

theorem object_urls_accounted_for:
  "distinct (trackedObjectUrls (run rt evs mountedViewer)
             @ transientResourceUrls (run rt evs mountedViewer)
             @ revokedUrls (run rt evs mountedViewer))
   \<and> set (trackedObjectUrls (run rt evs mountedViewer)
           @ transientResourceUrls (run rt evs mountedViewer)
           @ revokedUrls (run rt evs mountedViewer))
       = {..<nextObjectUrl (run rt evs mountedViewer)}
   \<and> trackedObjectUrls (run rt (evs @ [Unmounted]) mountedViewer) = []
   \<and> transientResourceUrls (run rt (evs @ [Unmounted]) mountedViewer) = []
   \<and> distinct (revokedUrls (run rt (evs @ [Unmounted]) mountedViewer))
   \<and> set (revokedUrls (run rt (evs @ [Unmounted]) mountedViewer))
       = {..<nextObjectUrl (run rt (evs @ [Unmounted]) mountedViewer)}
   \<and> nextObjectUrl (run rt (evs @ [Unmounted]) mountedViewer)
       = nextObjectUrl (run rt evs mountedViewer)"
proof -
  define st where "st = run rt evs mountedViewer"
  have fin: "run rt (evs @ [Unmounted]) mountedViewer = onBeforeUnmount st"
    by (simp add: st_def run_def)
  have acc: "handlesAccounted st"
    unfolding st_def by (rule run_accounted [OF mounted_accounted])
  have acc': "handlesAccounted (onBeforeUnmount st)"
    by (rule onBeforeUnmount_accounted [OF acc])
  have empty: "trackedObjectUrls (onBeforeUnmount st) = []"
    "transientResourceUrls (onBeforeUnmount st) = []"
    "nextObjectUrl (onBeforeUnmount st) = nextObjectUrl st"
    by (simp_all add: onBeforeUnmount_handles)
  show ?thesis
    using acc acc' empty unfolding fin st_def [symmetric] handlesAccounted_def by simp
qed

theorem object_urls_accounted_for_witness:
  "distinct (revokedUrls (run sampleRuntime (overlappingLoads @ [Unmounted]) mountedViewer))
   \<and> set (revokedUrls (run sampleRuntime (overlappingLoads @ [Unmounted]) mountedViewer))
       = {..<3}"
proof -
  have "nextObjectUrl (run sampleRuntime overlappingLoads mountedViewer) = 3"
    using overlapping_state by simp
  then show ?thesis
    using object_urls_accounted_for [of sampleRuntime overlappingLoads] by simp
qed

text \<open>
  Claim C1 as stated fails where it says that the URLs of two overlapping loads are tracked
  independently. In the example session URL 2 is created for a request that is resolved to a
  file of the second file set. When the first load then succeeds, its callback revokes URL 2
  with its own main URL 0, while the second load is still pending.
\<close>

theorem first_load_revokes_url_of_second:
  "map_sum id fst (resolveAssetUrl sampleRuntime (js ''robot.bin'')
       (run sampleRuntime (take 2 overlappingLoads) mountedViewer)) = Inr (ObjectUrl 2)
   \<and> transientResourceUrls (run sampleRuntime overlappingLoads mountedViewer) = [2]
   \<and> pendingLoads (run sampleRuntime overlappingLoads mountedViewer) = [firstLoad, secondLoad]
   \<and> revokedUrls (run sampleRuntime (overlappingLoads @ [LoadSucceeded firstLoad sampleGltf])
        mountedViewer) = [0, 2]
   \<and> pendingLoads (run sampleRuntime (overlappingLoads @ [LoadSucceeded firstLoad sampleGltf])
        mountedViewer) = [secondLoad]"
proof -
  define st where "st = run sampleRuntime overlappingLoads mountedViewer"
  have st: "trackedObjectUrls st = [0, 1]" "transientResourceUrls st = [2]"
    "revokedUrls st = []" "pendingLoads st = [firstLoad, secondLoad]" "scene st \<noteq> None"
    using overlapping_state unfolding st_def by blast+
  define st1 where "st1 = st\<lparr>pendingLoads := remove1 firstLoad (pendingLoads st)\<rparr>"
  have live: "scene st1 \<noteq> None"
    using st(5) by (simp add: st1_def)
  have after: "run sampleRuntime (overlappingLoads @ [LoadSucceeded firstLoad sampleGltf])
      mountedViewer = onLoadSuccess firstLoad sampleGltf st1"
    using st(4) by (simp add: run_append run_single st_def [symmetric] st1_def)
  have revoked: "revokedUrls (onLoadSuccess firstLoad sampleGltf st1) = [0, 2]"
    and pending: "pendingLoads (onLoadSuccess firstLoad sampleGltf st1) = [secondLoad]"
    using onLoadSuccess_handles [OF live, of firstLoad sampleGltf] st
    by (simp_all add: st1_def firstLoad_def)
  from built_first obtain m1 where m1: "buildAssetMap sampleRuntime [sceneFile, robotFile] = Inr m1"
    by blast
  from built_second obtain m2 where
    m2: "buildAssetMap sampleRuntime [secondScene, shadowFile] = Inr m2"
    and ne: "m2 \<noteq> []"
    and hit: "findAssetFileByUrl sampleRuntime m2 (js ''robot.bin'') = Inr (Some shadowFile)"
    by blast
  have nodata: "\<not> isDataUri (js ''robot.bin'')"
    by (simp add: isDataUri_def js_def asciiLower_def)
  have resolved: "map_sum id fst (resolveAssetUrl sampleRuntime (js ''robot.bin'')
       (run sampleRuntime (take 2 overlappingLoads) mountedViewer)) = Inr (ObjectUrl 2)"
    using m1 m2 ne hit nodata find_first find_second mounted_live mounted_handles
    by (simp add: run_def overlappingLoads_def loadModelFromFileSet_starts setAdd_def
        resolveAssetUrl_def createObjectURL_def)
  show ?thesis
    using resolved st(2,4) revoked pending unfolding after st_def [symmetric] by simp
qed

lemma onLoadError_flags:
  "isLoading (onLoadError req err st) = False
   \<and> statusText (onLoadError req err st)
       = loadFailedPrefix @ (case err of IsError msg \<Rightarrow> msg | NotError str \<Rightarrow> str)"
  by (simp add: onLoadError_def Let_def)

text \<open>
  Claim C8. When the error callback of a pending load fires, after any sequence of events
  on a mounted viewer, the load's main URL is revoked (by this callback, or earlier by the
  unmounting) and no longer tracked, every transient URL accumulated so far is revoked and
  the transient list is empty, no URL has been revoked twice, the loading flag is reset, and
  the status message is the fixed prefix followed by the error's message, or by the string
  form of a value that is not an \<open>Error\<close>.
\<close>

theorem error_callback_releases_and_reports:
  assumes "req \<in> set (pendingLoads (run rt evs mountedViewer))"
  shows "mainUrl req \<in> set (revokedUrls (run rt (evs @ [LoadFailed req err]) mountedViewer))
    \<and> mainUrl req \<notin> set (trackedObjectUrls (run rt (evs @ [LoadFailed req err]) mountedViewer))
    \<and> set (transientResourceUrls (run rt evs mountedViewer))
        \<subseteq> set (revokedUrls (run rt (evs @ [LoadFailed req err]) mountedViewer))
    \<and> transientResourceUrls (run rt (evs @ [LoadFailed req err]) mountedViewer) = []
    \<and> distinct (revokedUrls (run rt (evs @ [LoadFailed req err]) mountedViewer))
    \<and> isLoading (run rt (evs @ [LoadFailed req err]) mountedViewer) = False
    \<and> statusText (run rt (evs @ [LoadFailed req err]) mountedViewer)
        = loadFailedPrefix @ (case err of IsError msg \<Rightarrow> msg | NotError str \<Rightarrow> str)"
proof -
  define st where "st = run rt evs mountedViewer"
  define st1 where "st1 = st\<lparr>pendingLoads := remove1 req (pendingLoads st)\<rparr>"
  have after: "run rt (evs @ [LoadFailed req err]) mountedViewer = onLoadError req err st1"
    using assms by (simp add: run_append run_single st_def [symmetric] st1_def)
  have prim: "primariesAccounted st"
    unfolding st_def by (rule run_primaries [OF mounted_primaries])
  with assms have held: "mainUrl req \<in> set (trackedObjectUrls st) \<union> set (revokedUrls st)"
    unfolding primariesAccounted_def list_all_iff st_def by blast
  have "handlesAccounted st"
    unfolding st_def by (rule run_accounted [OF mounted_accounted])
  then have "handlesAccounted st1"
    by (simp add: st1_def)
  then have "handlesAccounted (onLoadError req err st1)"
    by (rule onLoadError_accounted)
  then have once: "distinct (revokedUrls (onLoadError req err st1))"
    by (simp add: handlesAccounted_def)
  have fields: "trackedObjectUrls st1 = trackedObjectUrls st"
    "transientResourceUrls st1 = transientResourceUrls st" "revokedUrls st1 = revokedUrls st"
    by (simp_all add: st1_def)
  show ?thesis
    unfolding after st_def [symmetric]
    using held once onLoadError_handles [of req err st1] onLoadError_flags [of req err st1] fields
    by auto
qed

theorem error_callback_releases_and_reports_witness:
  "mainUrl firstLoad \<in> set (revokedUrls (run sampleRuntime
       ([FilesProvided [sceneFile, robotFile]] @ [LoadFailed firstLoad (IsError (js ''bad''))])
       mountedViewer))
   \<and> isLoading (run sampleRuntime
       ([FilesProvided [sceneFile, robotFile]] @ [LoadFailed firstLoad (IsError (js ''bad''))])
       mountedViewer) = False
   \<and> statusText (run sampleRuntime
       ([FilesProvided [sceneFile, robotFile]] @ [LoadFailed firstLoad (IsError (js ''bad''))])
       mountedViewer) = loadFailedPrefix @ js ''bad''"
proof -
  from built_first obtain m1 where m1: "buildAssetMap sampleRuntime [sceneFile, robotFile] = Inr m1"
    by blast
  have "pendingLoads (run sampleRuntime [FilesProvided [sceneFile, robotFile]] mountedViewer)
      = [firstLoad]"
    using m1 find_first mounted_live mounted_handles
    by (simp add: run_single loadModelFromFileSet_starts firstLoad_def)
  then have pending: "firstLoad
      \<in> set (pendingLoads (run sampleRuntime [FilesProvided [sceneFile, robotFile]] mountedViewer))"
    by simp
  show ?thesis
    using error_callback_releases_and_reports [OF pending, of "IsError (js ''bad'')"] by simp
qed

section \<open>Verification: loading a file set\<close>

lemma onLoadSuccess_stale: "scene st = None \<Longrightarrow> onLoadSuccess req g st = st"
  by (simp add: onLoadSuccess_def)

lemma unmounted_state:
  "scene unmountedWhileLoading = None
   \<and> isLoading unmountedWhileLoading = True
   \<and> statusText unmountedWhileLoading = loadingMessage (js ''scene.gltf'')
   \<and> pendingLoads unmountedWhileLoading = [firstLoad]"
proof -
  from built_first obtain m1 where m1: "buildAssetMap sampleRuntime [sceneFile, robotFile] = Inr m1"
    by blast
  show ?thesis
    using m1 find_first mounted_live mounted_handles
    by (simp add: unmountedWhileLoading_def run_def loadModelFromFileSet_starts firstLoad_def
        onBeforeUnmount_def Let_def revokeTransient_eq fold_revokeObjectURL clearModel_def
        sceneFile_def split: option.splits)
qed

lemma onLoadSuccess_live:
  "scene st \<noteq> None \<Longrightarrow>
     hasModel (onLoadSuccess req g st) \<and> \<not> isLoading (onLoadSuccess req g st)
     \<and> statusText (onLoadSuccess req g st)
         = loadedMessage (name (mainFile req)) (length (files req))"
  by (auto simp add: onLoadSuccess_def Let_def)

text \<open>
  Claim C5, as the code has it. The success callback tests one thing, whether \<open>scene\<close> is
  null: on a session that has been torn down it returns and the state is as before. With a
  scene present it runs in full, whatever has happened since the load was started, also
  when a later load has superseded it: it releases the object URLs, sets the flags and
  reports this load as loaded. The error callback tests nothing: in every state, torn down
  or not, it releases the load's primary URL if that is still tracked and all transient
  URLs, resets the loading flag and sets the failure message.
\<close>

theorem callbacks_guard_null_scene_only:
  "(scene st = None \<longrightarrow> onLoadSuccess req g st = st)
   \<and> (scene st \<noteq> None \<longrightarrow>
        hasModel (onLoadSuccess req g st) \<and> \<not> isLoading (onLoadSuccess req g st)
        \<and> statusText (onLoadSuccess req g st)
            = loadedMessage (name (mainFile req)) (length (files req))
        \<and> trackedObjectUrls (onLoadSuccess req g st)
            = removeAll (mainUrl req) (trackedObjectUrls st)
        \<and> transientResourceUrls (onLoadSuccess req g st) = [])
   \<and> \<not> isLoading (onLoadError req err st)
   \<and> statusText (onLoadError req err st)
       = loadFailedPrefix @ (case err of IsError msg \<Rightarrow> msg | NotError str \<Rightarrow> str)
   \<and> trackedObjectUrls (onLoadError req err st)
       = removeAll (mainUrl req) (trackedObjectUrls st)
   \<and> transientResourceUrls (onLoadError req err st) = []"
  using onLoadSuccess_stale [of st req g] onLoadSuccess_live [of st req g]
    onLoadSuccess_handles [of st req g] onLoadError_flags [of req err st]
    onLoadError_handles [of req err st]
  by blast

theorem callbacks_guard_null_scene_only_witness:
  "onLoadSuccess firstLoad sampleGltf unmountedWhileLoading = unmountedWhileLoading
   \<and> statusText (onLoadSuccess firstLoad sampleGltf
         (run sampleRuntime overlappingLoads mountedViewer))
       = loadedMessage (js ''scene.gltf'') 2
   \<and> trackedObjectUrls (onLoadSuccess firstLoad sampleGltf
         (run sampleRuntime overlappingLoads mountedViewer)) = [1]
   \<and> statusText (onLoadError firstLoad (IsError (js ''bad'')) unmountedWhileLoading)
       = loadFailedPrefix @ js ''bad''"
proof -
  have torn_down: "scene unmountedWhileLoading = None"
    using unmounted_state by blast
  have live: "scene (run sampleRuntime overlappingLoads mountedViewer) \<noteq> None"
    and tracked: "trackedObjectUrls (run sampleRuntime overlappingLoads mountedViewer) = [0, 1]"
    using overlapping_state by blast+
  from callbacks_guard_null_scene_only [of unmountedWhileLoading firstLoad sampleGltf
      "IsError (js ''bad'')"]
    callbacks_guard_null_scene_only [of "run sampleRuntime overlappingLoads mountedViewer"
      firstLoad sampleGltf "IsError (js ''bad'')"]
  show ?thesis
    using torn_down live tracked by (auto simp add: firstLoad_def sceneFile_def numeral_2_eq_2)
qed

text \<open>
  Claim C5 as stated fails for the error callback. A load is started and the view is
  unmounted before the loader calls back. The success callback then finds \<open>scene\<close> null and
  leaves the state as it is. The error callback has no such check: it resets the loading
  flag and overwrites the status message of the torn-down session.
\<close>

theorem error_callback_mutates_after_unmount:
  "scene unmountedWhileLoading = None
   \<and> onLoadSuccess firstLoad sampleGltf unmountedWhileLoading = unmountedWhileLoading
   \<and> isLoading unmountedWhileLoading = True
   \<and> isLoading (onLoadError firstLoad (IsError (js ''bad'')) unmountedWhileLoading) = False
   \<and> statusText unmountedWhileLoading = loadingMessage (js ''scene.gltf'')
   \<and> statusText (onLoadError firstLoad (IsError (js ''bad'')) unmountedWhileLoading)
       = loadFailedPrefix @ js ''bad''
   \<and> onLoadError firstLoad (IsError (js ''bad'')) unmountedWhileLoading \<noteq> unmountedWhileLoading"
proof -
  have st: "scene unmountedWhileLoading = None" "isLoading unmountedWhileLoading = True"
    "statusText unmountedWhileLoading = loadingMessage (js ''scene.gltf'')"
    using unmounted_state by blast+
  have err: "isLoading (onLoadError firstLoad (IsError (js ''bad'')) unmountedWhileLoading) = False"
    "statusText (onLoadError firstLoad (IsError (js ''bad'')) unmountedWhileLoading)
       = loadFailedPrefix @ js ''bad''"
    using onLoadError_flags [of firstLoad "IsError (js ''bad'')" unmountedWhileLoading]
    by simp_all
  have "onLoadError firstLoad (IsError (js ''bad'')) unmountedWhileLoading \<noteq> unmountedWhileLoading"
    using err(1) st(2) by auto
  then show ?thesis
    using st err onLoadSuccess_stale [OF st(1)] by simp
qed

lemma find_none: "(\<forall>f\<in>set fs. \<not> P f) \<Longrightarrow> find P fs = None"
  by (induction fs) auto

text \<open>
  Claim C9. For a file list without a file whose lowercased name ends in \<open>.glb\<close> or
  \<open>.gltf\<close>, \<open>loadModelFromFileSet\<close> returns normally and changes nothing but the status
  text: the active model, the extension lists, the asset index, the object URLs and the
  pending loads are as before, and in a viewer whose loader and scene exist the status text
  is the "no model file" message.
\<close>

theorem no_model_file_reports_and_returns:
  assumes "\<forall>f\<in>set fs. \<not> isModelFile rt f"
  shows "loadModelFromFileSet rt fs st
           = Inr (if gltfLoader st \<and> scene st \<noteq> None
                  then st\<lparr>statusText := noModelFileMessage\<rparr> else st)
    \<and> (\<forall>st'. loadModelFromFileSet rt fs st = Inr st' \<longrightarrow>
          activeModel st' = activeModel st
          \<and> requiredExtensions st' = requiredExtensions st
          \<and> usedExtensions st' = usedExtensions st
          \<and> assetMap st' = assetMap st
          \<and> nextObjectUrl st' = nextObjectUrl st
          \<and> trackedObjectUrls st' = trackedObjectUrls st
          \<and> transientResourceUrls st' = transientResourceUrls st
          \<and> pendingLoads st' = pendingLoads st
          \<and> isLoading st' = isLoading st
          \<and> (gltfLoader st \<and> scene st \<noteq> None \<longrightarrow> statusText st' = noModelFileMessage))"
proof -
  have none: "find (isModelFile rt) fs = None"
    using assms by (rule find_none)
  have eq: "loadModelFromFileSet rt fs st
           = Inr (if gltfLoader st \<and> scene st \<noteq> None
                  then st\<lparr>statusText := noModelFileMessage\<rparr> else st)"
    using none by (auto simp: loadModelFromFileSet_def)
  show ?thesis
    unfolding eq by auto
qed

theorem no_model_file_reports_and_returns_witness:
  "loadModelFromFileSet sampleRuntime [robotFile, percentFile] mountedViewer
     = Inr (mountedViewer\<lparr>statusText := noModelFileMessage\<rparr>)"
proof -
  have "\<forall>f\<in>set [robotFile, percentFile]. \<not> isModelFile sampleRuntime f"
    by (simp add: isModelFile_def endsWith_def toLowerCase_def asciiLower_def js_def
        robotFile_def percentFile_def)
  from no_model_file_reports_and_returns [OF this, of mountedViewer] show ?thesis
    using mounted_live by auto
qed

lemma find_first_match:
  "(\<forall>f\<in>set before. \<not> P f) \<Longrightarrow> P x \<Longrightarrow> find P (before @ x # rest) = Some x"
  by (induction before) auto

lemma indexFile_has_name:
  assumes "indexFile rt m f = Inr m'"
  shows "\<exists>nm. normalizeAssetPath (name f) = Inr nm \<and> map_of m' nm \<noteq> None"
proof -
  from assms obtain nm rel where nm: "normalizeAssetPath (name f) = Inr nm"
    and rel: "normalizeAssetPath (webkitRelativePath f) = Inr rel"
    by (auto simp: indexFile_def Let_def split: sum.splits)
  have "\<exists>ks. m' = fold (\<lambda>k. AList.update k f) (nm # ks) m"
  proof (cases "rel = []")
    case True
    have "m' = fold (\<lambda>k. AList.update k f) [nm, toLowerCase rt nm] m"
      using assms nm rel True by (simp add: indexFile_def Let_def)
    then show ?thesis ..
  next
    case False
    show ?thesis
    proof (cases "basename rel = []")
      case True
      have "m' = fold (\<lambda>k. AList.update k f) [nm, toLowerCase rt nm, rel, toLowerCase rt rel] m"
        using assms nm rel False True by (simp add: indexFile_def Let_def)
      then show ?thesis ..
    next
      case b: False
      have "m' = fold (\<lambda>k. AList.update k f)
                     [nm, toLowerCase rt nm, rel, toLowerCase rt rel, basename rel,
                      toLowerCase rt (basename rel)] m"
        using assms nm rel False b by (simp add: indexFile_def Let_def)
      then show ?thesis ..
    qed
  qed
  then obtain ks where "m' = fold (\<lambda>k. AList.update k f) (nm # ks) m" ..
  then have "map_of m' nm \<noteq> None"
    by (simp only: map_of_fold_update) simp
  with nm show ?thesis by blast
qed

lemma indexFiles_names_indexed:
  "indexFiles rt m fs = Inr m' \<Longrightarrow> f \<in> set fs \<Longrightarrow>
     \<exists>nm. normalizeAssetPath (name f) = Inr nm \<and> map_of m' nm \<noteq> None"
proof (induction fs arbitrary: m)
  case Nil
  then show ?case by simp
next
  case (Cons g fs)
  from Cons.prems(1) obtain m1 where m1: "indexFile rt m g = Inr m1"
    and rest: "indexFiles rt m1 fs = Inr m'"
    by (auto split: sum.splits)
  show ?case
  proof (cases "f \<in> set fs")
    case True
    from Cons.IH [OF rest True] show ?thesis .
  next
    case False
    with Cons.prems(2) have fg: "g = f" by simp
    from indexFile_has_name [OF m1] obtain nm where
      nm: "normalizeAssetPath (name g) = Inr nm" and has: "map_of m1 nm \<noteq> None"
      by blast
    from indexFiles_binding_stays [OF rest has] nm fg show ?thesis by blast
  qed
qed

text \<open>
  Claim C10, as the code has it. In a viewer whose loader and scene exist, for a file list
  whose first model file is \<open>mf\<close> and on which \<open>buildAssetMap\<close> returns,
  \<open>loadModelFromFileSet\<close> starts exactly one load, with \<open>mf\<close> as its main file and a new
  tracked object URL, and the asset index is the one built from the whole list: the
  normalized name of every provided file is a key of it.
\<close>

theorem first_model_file_is_loaded:
  assumes live: "gltfLoader st" "scene st \<noteq> None"
    and split: "fs = before @ mf # rest"
    and before: "\<forall>f\<in>set before. \<not> isModelFile rt f"
    and mf: "isModelFile rt mf"
    and built: "buildAssetMap rt fs = Inr m"
  shows "\<exists>st'. loadModelFromFileSet rt fs st = Inr st'
      \<and> pendingLoads st' = pendingLoads st
           @ [\<lparr>mainUrl = nextObjectUrl st, mainFile = mf, files = fs\<rparr>]
      \<and> mainUrl (last (pendingLoads st')) \<in> set (trackedObjectUrls st')
      \<and> isLoading st' = True
      \<and> statusText st' = loadingMessage (name mf)
      \<and> assetMap st' = m
      \<and> (\<forall>f\<in>set fs. \<exists>nm. normalizeAssetPath (name f) = Inr nm \<and> map_of m nm \<noteq> None)"
proof -
  have found: "find (isModelFile rt) fs = Some mf"
    unfolding split using before mf by (rule find_first_match)
  have indexed: "\<forall>f\<in>set fs. \<exists>nm. normalizeAssetPath (name f) = Inr nm \<and> map_of m nm \<noteq> None"
    using built indexFiles_names_indexed [of rt "[]" fs m]
    by (auto simp: buildAssetMap_def)
  show ?thesis
    using indexed
    by (simp add: loadModelFromFileSet_starts [OF live found built] setAdd_def)
qed

theorem first_model_file_is_loaded_witness:
  "pendingLoads (projr (loadModelFromFileSet sampleRuntime [robotFile, sceneFile, secondScene] mountedViewer))
     = [\<lparr>mainUrl = 0, mainFile = sceneFile, files = [robotFile, sceneFile, secondScene]\<rparr>]"
proof -
  obtain m where built: "buildAssetMap sampleRuntime [robotFile, sceneFile, secondScene] = Inr m"
    by (simp add: index_eval file_eval)
  have split: "[robotFile, sceneFile, secondScene] = [robotFile] @ sceneFile # [secondScene]"
    by simp
  have before: "\<forall>f\<in>set [robotFile]. \<not> isModelFile sampleRuntime f"
    by (simp add: isModelFile_def endsWith_def toLowerCase_def asciiLower_def js_def file_eval)
  have mf: "isModelFile sampleRuntime sceneFile"
    by (simp add: isModelFile_def endsWith_def toLowerCase_def asciiLower_def js_def file_eval)
  from first_model_file_is_loaded [OF mounted_live split before mf built]
  show ?thesis
    using mounted_handles by auto
qed

text \<open>
  Claim C10 as stated fails: with a file named \<open>100%.png\<close> in the list, the model file is
  found but \<open>buildAssetMap\<close> throws URIError, and nothing is loaded or indexed.
\<close>

theorem undecodable_name_aborts_load:
  "find (isModelFile sampleRuntime) [sceneFile, percentFile] = Some sceneFile
   \<and> loadModelFromFileSet sampleRuntime [sceneFile, percentFile] mountedViewer = Inl URIError
   \<and> step sampleRuntime mountedViewer (FilesProvided [sceneFile, percentFile]) = mountedViewer"
proof -
  have found: "find (isModelFile sampleRuntime) [sceneFile, percentFile] = Some sceneFile"
    by (simp add: isModelFile_def endsWith_def toLowerCase_def asciiLower_def js_def file_eval
        percentFile_def)
  have thrown: "buildAssetMap sampleRuntime [sceneFile, percentFile] = Inl URIError"
    by (simp add: index_eval file_eval percentFile_def)
  have "loadModelFromFileSet sampleRuntime [sceneFile, percentFile] mountedViewer = Inl URIError"
    using found thrown mounted_live by (auto simp: loadModelFromFileSet_def)
  then show ?thesis
    using found by simp
qed

section \<open>Verification: Scene Auto-Framing\<close>

text \<open>
  Bounds for the tangent of 27.5 degrees, from polynomial bounds of the arc tangent and
  Machin's formula for \<open>pi\<close>.
\<close>

lemma arctan_lower3:
  fixes x :: real
  assumes "0 \<le> x"
  shows "x - x ^ 3 / 3 \<le> arctan x"
proof -
  have "arctan 0 - (0 - 0 ^ 3 / 3) \<le> arctan x - (x - x ^ 3 / 3)"
  proof (rule DERIV_nonneg_imp_nondecreasing [OF assms])
    fix t :: real
    assume "0 \<le> t" "t \<le> x"
    have d: "((\<lambda>u. arctan u - (u - u ^ 3 / 3)) has_real_derivative
               (inverse (1 + t\<^sup>2) - (1 - t\<^sup>2))) (at t)"
      by (auto intro!: derivative_eq_intros)
    have "(1 - t\<^sup>2) * (1 + t\<^sup>2) \<le> 1"
      by (simp add: algebra_simps power2_eq_square [symmetric] flip: power_add power_mult)
    then have "1 - t\<^sup>2 \<le> inverse (1 + t\<^sup>2)"
      by (simp add: inverse_eq_divide pos_le_divide_eq add_pos_nonneg)
    then have "0 \<le> inverse (1 + t\<^sup>2) - (1 - t\<^sup>2)"
      by simp
    with d show "\<exists>y. ((\<lambda>u. arctan u - (u - u ^ 3 / 3)) has_real_derivative y) (at t) \<and> 0 \<le> y"
      by blast
  qed
  then show ?thesis by simp
qed

lemma arctan_upper5:
  fixes x :: real
  assumes "0 \<le> x"
  shows "arctan x \<le> x - x ^ 3 / 3 + x ^ 5 / 5"
proof -
  have "(0 - 0 ^ 3 / 3 + 0 ^ 5 / 5) - arctan 0 \<le> (x - x ^ 3 / 3 + x ^ 5 / 5) - arctan x"
  proof (rule DERIV_nonneg_imp_nondecreasing [OF assms])
    fix t :: real
    assume "0 \<le> t" "t \<le> x"
    have d: "((\<lambda>u. (u - u ^ 3 / 3 + u ^ 5 / 5) - arctan u) has_real_derivative
               ((1 - t\<^sup>2 + t ^ 4) - inverse (1 + t\<^sup>2))) (at t)"
      by (auto intro!: derivative_eq_intros)
    have "(1 - t\<^sup>2 + t ^ 4) * (1 + t\<^sup>2) = 1 + t ^ 6"
      by (simp add: algebra_simps power2_eq_square [symmetric] flip: power_add power_mult)
    then have "1 \<le> (1 - t\<^sup>2 + t ^ 4) * (1 + t\<^sup>2)"
      by simp
    then have "inverse (1 + t\<^sup>2) \<le> 1 - t\<^sup>2 + t ^ 4"
      by (simp add: inverse_eq_divide pos_divide_le_eq add_pos_nonneg)
    then have "0 \<le> (1 - t\<^sup>2 + t ^ 4) - inverse (1 + t\<^sup>2)"
      by simp
    with d show "\<exists>y. ((\<lambda>u. (u - u ^ 3 / 3 + u ^ 5 / 5) - arctan u) has_real_derivative y) (at t)
        \<and> 0 \<le> y"
      by blast
  qed
  then show ?thesis by simp
qed

lemma arctan_upper9:
  fixes x :: real
  assumes "0 \<le> x"
  shows "arctan x \<le> x - x ^ 3 / 3 + x ^ 5 / 5 - x ^ 7 / 7 + x ^ 9 / 9"
proof -
  have "(0 - 0 ^ 3 / 3 + 0 ^ 5 / 5 - 0 ^ 7 / 7 + 0 ^ 9 / 9) - arctan 0
          \<le> (x - x ^ 3 / 3 + x ^ 5 / 5 - x ^ 7 / 7 + x ^ 9 / 9) - arctan x"
  proof (rule DERIV_nonneg_imp_nondecreasing [OF assms])
    fix t :: real
    assume "0 \<le> t" "t \<le> x"
    have d: "((\<lambda>u. (u - u ^ 3 / 3 + u ^ 5 / 5 - u ^ 7 / 7 + u ^ 9 / 9) - arctan u)
        has_real_derivative ((1 - t\<^sup>2 + t ^ 4 - t ^ 6 + t ^ 8) - inverse (1 + t\<^sup>2))) (at t)"
      by (auto intro!: derivative_eq_intros)
    have "(1 - t\<^sup>2 + t ^ 4 - t ^ 6 + t ^ 8) * (1 + t\<^sup>2) = 1 + t ^ 10"
      by (simp add: algebra_simps power2_eq_square [symmetric] flip: power_add power_mult)
    then have "1 \<le> (1 - t\<^sup>2 + t ^ 4 - t ^ 6 + t ^ 8) * (1 + t\<^sup>2)"
      by simp
    then have "inverse (1 + t\<^sup>2) \<le> 1 - t\<^sup>2 + t ^ 4 - t ^ 6 + t ^ 8"
      by (simp add: inverse_eq_divide pos_divide_le_eq add_pos_nonneg)
    then have "0 \<le> (1 - t\<^sup>2 + t ^ 4 - t ^ 6 + t ^ 8) - inverse (1 + t\<^sup>2)"
      by simp
    with d show "\<exists>y. ((\<lambda>u. (u - u ^ 3 / 3 + u ^ 5 / 5 - u ^ 7 / 7 + u ^ 9 / 9) - arctan u)
        has_real_derivative y) (at t) \<and> 0 \<le> y"
      by blast
  qed
  then show ?thesis by simp
qed

lemma arctan_lower11:
  fixes x :: real
  assumes "0 \<le> x"
  shows "x - x ^ 3 / 3 + x ^ 5 / 5 - x ^ 7 / 7 + x ^ 9 / 9 - x ^ 11 / 11 \<le> arctan x"
proof -
  have "arctan 0 - (0 - 0 ^ 3 / 3 + 0 ^ 5 / 5 - 0 ^ 7 / 7 + 0 ^ 9 / 9 - 0 ^ 11 / 11)
          \<le> arctan x - (x - x ^ 3 / 3 + x ^ 5 / 5 - x ^ 7 / 7 + x ^ 9 / 9 - x ^ 11 / 11)"
  proof (rule DERIV_nonneg_imp_nondecreasing [OF assms])
    fix t :: real
    assume "0 \<le> t" "t \<le> x"
    have d: "((\<lambda>u. arctan u - (u - u ^ 3 / 3 + u ^ 5 / 5 - u ^ 7 / 7 + u ^ 9 / 9 - u ^ 11 / 11))
        has_real_derivative
          (inverse (1 + t\<^sup>2) - (1 - t\<^sup>2 + t ^ 4 - t ^ 6 + t ^ 8 - t ^ 10))) (at t)"
      by (auto intro!: derivative_eq_intros)
    have "(1 - t\<^sup>2 + t ^ 4 - t ^ 6 + t ^ 8 - t ^ 10) * (1 + t\<^sup>2) = 1 - t ^ 12"
      by (simp add: algebra_simps power2_eq_square [symmetric] flip: power_add power_mult)
    then have "(1 - t\<^sup>2 + t ^ 4 - t ^ 6 + t ^ 8 - t ^ 10) * (1 + t\<^sup>2) \<le> 1"
      by simp
    then have "1 - t\<^sup>2 + t ^ 4 - t ^ 6 + t ^ 8 - t ^ 10 \<le> inverse (1 + t\<^sup>2)"
      by (simp add: inverse_eq_divide pos_le_divide_eq add_pos_nonneg)
    then have "0 \<le> inverse (1 + t\<^sup>2) - (1 - t\<^sup>2 + t ^ 4 - t ^ 6 + t ^ 8 - t ^ 10)"
      by simp
    with d show "\<exists>y. ((\<lambda>u. arctan u
          - (u - u ^ 3 / 3 + u ^ 5 / 5 - u ^ 7 / 7 + u ^ 9 / 9 - u ^ 11 / 11))
        has_real_derivative y) (at t) \<and> 0 \<le> y"
      by blast
  qed
  then show ?thesis by simp
qed

lemma pi_bounds: "3.1405 < pi" "pi < 3.1417"
proof -
  have a5l: "(1/5) - (1/5) ^ 3 / 3 \<le> arctan (1/5 :: real)"
    by (rule arctan_lower3) simp
  have a5u: "arctan (1/5 :: real) \<le> (1/5) - (1/5) ^ 3 / 3 + (1/5) ^ 5 / 5"
    by (rule arctan_upper5) simp
  have a239l: "(1/239) - (1/239) ^ 3 / 3 \<le> arctan (1/239 :: real)"
    by (rule arctan_lower3) simp
  have a239u: "arctan (1/239 :: real) \<le> (1/239) - (1/239) ^ 3 / 3 + (1/239) ^ 5 / 5"
    by (rule arctan_upper5) simp
  have m: "pi = 16 * arctan (1 / 5) - 4 * arctan (1 / 239)"
    using machin by simp
  show "3.1405 < pi"
    unfolding m using a5l a239u by (simp add: power_divide)
  show "pi < 3.1417"
    unfolding m using a5u a239l by (simp add: power_divide)
qed


lemma tan_fov55:
  "400 / 769 < tan (55 * pi / 180 / 2)" "tan (55 * pi / 180 / 2) < 25 / 48"
proof -
  define x :: real where "x = 55 * pi / 180 / 2"
  have range: "- (pi / 2) < x" "x < pi / 2"
    using pi_gt_zero by (simp_all add: x_def)
  have arctan_x: "arctan (tan x) = x"
    by (rule arctan_tan [OF range])
  have "arctan (400 / 769 :: real)
      \<le> (400/769) - (400/769) ^ 3 / 3 + (400/769) ^ 5 / 5 - (400/769) ^ 7 / 7 + (400/769) ^ 9 / 9"
    by (rule arctan_upper9) simp
  also have "\<dots> < 55 * 3.1405 / 180 / 2"
    by (simp add: power_divide)
  also have "\<dots> < x"
    using pi_bounds(1) by (simp add: x_def)
  finally have "arctan (400 / 769) < arctan (tan x)"
    by (simp add: arctan_x)
  then show "400 / 769 < tan (55 * pi / 180 / 2)"
    by (simp add: arctan_less_iff x_def)
  have "x < 55 * 3.1417 / 180 / 2"
    using pi_bounds(2) by (simp add: x_def)
  also have "\<dots> < (25/48) - (25/48) ^ 3 / 3 + (25/48) ^ 5 / 5 - (25/48) ^ 7 / 7
      + (25/48) ^ 9 / 9 - (25/48) ^ 11 / 11"
    by (simp add: power_divide)
  also have "\<dots> \<le> arctan (25 / 48 :: real)"
    by (rule arctan_lower11) simp
  finally have "arctan (tan x) < arctan (25 / 48)"
    by (simp add: arctan_x)
  then show "tan (55 * pi / 180 / 2) < 25 / 48"
    by (simp add: arctan_less_iff x_def)
qed

lemma unit_cube_distance:
  assumes "boxMin bx = Vec3 (-1) (-1) (-1)" and "boxMax bx = Vec3 1 1 1"
  shows "frameDistance 55 bx = 2 / (2 * tan (27.5 * pi / 180))"
    and "1.92 < frameDistance 55 bx" and "frameDistance 55 bx < 1.9225"
proof -
  have angle: "55 * pi / 180 / 2 = 27.5 * pi / 180"
    by simp
  show eq: "frameDistance 55 bx = 2 / (2 * tan (27.5 * pi / 180))"
    using assms by (simp add: frameDistance_def getSize_def Let_def)
  have pos: "0 < tan (27.5 * pi / 180)"
    using tan_fov55(1) unfolding angle by simp
  have inv: "frameDistance 55 bx = 1 / tan (27.5 * pi / 180)"
    unfolding eq by simp
  show "1.92 < frameDistance 55 bx"
    unfolding inv using tan_fov55(2) pos unfolding angle by (simp add: field_simps)
  show "frameDistance 55 bx < 1.9225"
    unfolding inv using tan_fov55(1) pos unfolding angle by (simp add: field_simps)
qed

lemma frameDistance_extent:
  assumes "boxMin bx = Vec3 x1 y1 z1" and "boxMax bx = Vec3 x2 y2 z2"
  shows "frameDistance fovDegrees bx =
    (if x2 < x1 \<or> y2 < y1 \<or> z2 < z1 \<or> max (x2 - x1) (max (y2 - y1) (z2 - z1)) = 0 then 1
     else max (x2 - x1) (max (y2 - y1) (z2 - z1)))
      / (2 * tan ((fovDegrees * pi / 180) / 2))"
  using assms by (simp add: frameDistance_def getSize_def Let_def)

lemma frameModel_fields:
  assumes "camera st = Some cam" and "controls st = Some ctl"
  shows "camera (frameModel m st) =
      Some (cam\<lparr>cameraPosition := Vec3 (frameDistance (fov cam) (bounds m) * 1.2)
                                       (frameDistance (fov cam) (bounds m) * 0.8)
                                       (frameDistance (fov cam) (bounds m) * 1.2),
                near := max (frameDistance (fov cam) (bounds m) / 120) 0.01,
                far := max (frameDistance (fov cam) (bounds m) * 120) 120\<rparr>)"
    and "controls (frameModel m st) =
      Some (ctl\<lparr>target := Vec3 0 0 0,
                minDistance := frameDistance (fov cam) (bounds m) * 0.2,
                maxDistance := Some (frameDistance (fov cam) (bounds m) * 8)\<rparr>)"
  using assms by (simp_all add: frameModel_def Let_def)

text \<open>
  Claim C6, with numbers as reals and the example's values as the code computes them. With
  the camera and the controls present and a field of view between 0 and 180 degrees (the
  viewer's camera has 55), \<open>frameModel\<close> takes the largest axis extent of the bounding box,
  or 1 when the box is empty or that extent is zero, divides it by twice the tangent of half
  the vertical field of view (given in degrees) to get the distance \<open>d\<close>, puts the camera
  at \<open>(1.2 d, 0.8 d, 1.2 d)\<close> with near plane \<open>max (d / 120) 0.01\<close> and far plane
  \<open>max (d * 120) 120\<close>, and sets the orbit limits to \<open>0.2 d\<close> and \<open>8 d\<close>. For the box from
  \<open>(-1, -1, -1)\<close> to \<open>(1, 1, 1)\<close> and a field of view of 55 degrees, \<open>d\<close> is
  \<open>2 / (2 tan 27.5\<degree>)\<close>, which lies between 1.92 and 1.9225: to three digits \<open>d\<close> is 1.92,
  the minimum distance 0.384 and the maximum distance 15.4.
\<close>

theorem frameModel_places_camera:
  assumes cam: "camera st = Some cam" and ctl: "controls st = Some ctl"
    and fov: "0 < fov cam" "fov cam < 180"
    and bmin: "boxMin (bounds m) = Vec3 x1 y1 z1" and bmax: "boxMax (bounds m) = Vec3 x2 y2 z2"
  shows "let extent = max (x2 - x1) (max (y2 - y1) (z2 - z1));
             maxDim = (if x2 < x1 \<or> y2 < y1 \<or> z2 < z1 \<or> extent = 0 then 1 else extent);
             d = maxDim / (2 * tan ((fov cam * pi / 180) / 2))
         in 0 < tan ((fov cam * pi / 180) / 2)
          \<and> camera (frameModel m st) =
              Some (cam\<lparr>cameraPosition := Vec3 (d * 1.2) (d * 0.8) (d * 1.2),
                        near := max (d / 120) 0.01,
                        far := max (d * 120) 120\<rparr>)
          \<and> controls (frameModel m st) =
              Some (ctl\<lparr>target := Vec3 0 0 0, minDistance := d * 0.2,
                        maxDistance := Some (d * 8)\<rparr>)
          \<and> (fov cam = 55 \<and> Vec3 x1 y1 z1 = Vec3 (-1) (-1) (-1) \<and> Vec3 x2 y2 z2 = Vec3 1 1 1
               \<longrightarrow> d = 2 / (2 * tan (27.5 * pi / 180))
                 \<and> 1.92 < d \<and> d < 1.9225
                 \<and> \<bar>d - 1.92\<bar> < 0.005
                 \<and> \<bar>d * 0.2 - 0.384\<bar> < 0.0005
                 \<and> \<bar>d * 8 - 15.4\<bar> < 0.05)"
proof -
  define d where "d = frameDistance (fov cam) (bounds m)"
  have d: "d = (if x2 < x1 \<or> y2 < y1 \<or> z2 < z1 \<or> max (x2 - x1) (max (y2 - y1) (z2 - z1)) = 0
                then 1 else max (x2 - x1) (max (y2 - y1) (z2 - z1)))
               / (2 * tan ((fov cam * pi / 180) / 2))"
    unfolding d_def by (rule frameDistance_extent [OF bmin bmax])
  have "0 < (fov cam * pi / 180) / 2" and "(fov cam * pi / 180) / 2 < pi / 2"
    using fov pi_gt_zero by simp_all
  then have tan_pos: "0 < tan ((fov cam * pi / 180) / 2)"
    by (rule tan_gt_zero)
  have fields: "camera (frameModel m st) =
        Some (cam\<lparr>cameraPosition := Vec3 (d * 1.2) (d * 0.8) (d * 1.2),
                  near := max (d / 120) 0.01, far := max (d * 120) 120\<rparr>)"
    "controls (frameModel m st) =
        Some (ctl\<lparr>target := Vec3 0 0 0, minDistance := d * 0.2, maxDistance := Some (d * 8)\<rparr>)"
    unfolding d_def by (rule frameModel_fields [OF cam ctl])+
  have example: "d = 2 / (2 * tan (27.5 * pi / 180)) \<and> 1.92 < d \<and> d < 1.9225
      \<and> \<bar>d - 1.92\<bar> < 0.005 \<and> \<bar>d * 0.2 - 0.384\<bar> < 0.0005 \<and> \<bar>d * 8 - 15.4\<bar> < 0.05"
    if "fov cam = 55" and "Vec3 x1 y1 z1 = Vec3 (-1) (-1) (-1)" and "Vec3 x2 y2 z2 = Vec3 1 1 1"
  proof -
    have b: "boxMin (bounds m) = Vec3 (-1) (-1) (-1)" "boxMax (bounds m) = Vec3 1 1 1"
      using bmin bmax that by simp_all
    have eq: "d = 2 / (2 * tan (27.5 * pi / 180))" and bounds: "1.92 < d" "d < 1.9225"
      unfolding d_def that(1) by (rule unit_cube_distance [OF b])+
    have "d - 1.92 < 0.005" and "- (d - 1.92) < 0.005"
      using bounds by simp_all
    then have near_d: "\<bar>d - 1.92\<bar> < 0.005"
      by (simp only: abs_less_iff)
    have "d * 0.2 - 0.384 < 0.0005" and "- (d * 0.2 - 0.384) < 0.0005"
      using bounds by simp_all
    then have near_min: "\<bar>d * 0.2 - 0.384\<bar> < 0.0005"
      by (simp only: abs_less_iff)
    have "d * 8 - 15.4 < 0.05" and "- (d * 8 - 15.4) < 0.05"
      using bounds by simp_all
    then have near_max: "\<bar>d * 8 - 15.4\<bar> < 0.05"
      by (simp only: abs_less_iff)
    from eq bounds near_d near_min near_max show ?thesis by blast
  qed
  show ?thesis
    unfolding Let_def d [symmetric] using tan_pos fields example by blast
qed

lemma mounted_camera:
  "camera mountedViewer = Some \<lparr>fov = 55, cameraPosition = Vec3 6 4 6, near = 0.1, far = 5000\<rparr>"
  "controls mountedViewer = Some \<lparr>target = Vec3 0 0 0, minDistance = 0, maxDistance = None\<rparr>"
  by (simp_all add: mountedViewer_def onMounted_def)

lemma sampleGltf_bounds:
  "boxMin (bounds (gltfScene sampleGltf)) = Vec3 (-1) (-1) (-1)"
  "boxMax (bounds (gltfScene sampleGltf)) = Vec3 1 1 1"
  by (simp_all add: sampleGltf_def)

theorem frameModel_places_camera_witness:
  "map_option minDistance (controls (frameModel (gltfScene sampleGltf) mountedViewer))
     = Some (2 / (2 * tan (27.5 * pi / 180)) * 0.2)
   \<and> map_option maxDistance (controls (frameModel (gltfScene sampleGltf) mountedViewer))
     = Some (Some (2 / (2 * tan (27.5 * pi / 180)) * 8))
   \<and> \<bar>2 / (2 * tan (27.5 * pi / 180)) - 1.92\<bar> < (0.005 :: real)
   \<and> \<bar>2 / (2 * tan (27.5 * pi / 180)) * 0.2 - 0.384\<bar> < (0.0005 :: real)
   \<and> \<bar>2 / (2 * tan (27.5 * pi / 180)) * 8 - 15.4\<bar> < (0.05 :: real)"
proof -
  have fov: "0 < fov \<lparr>fov = 55, cameraPosition = Vec3 6 4 6, near = 0.1, far = 5000\<rparr>"
    "fov \<lparr>fov = 55, cameraPosition = Vec3 6 4 6, near = 0.1, far = 5000\<rparr> < 180"
    by simp_all
  from frameModel_places_camera [OF mounted_camera fov sampleGltf_bounds] show ?thesis
    by (simp add: Let_def)
qed

text \<open>
  Claim C6 as stated fails in the numbers of its example: for the box from \<open>(-1, -1, -1)\<close>
  to \<open>(1, 1, 1)\<close> and the viewer's field of view of 55 degrees the distance exceeds 1.92,
  so that it is more than 0.005 away from 1.91, the minimum distance more than 0.0005 away
  from 0.382 and the maximum distance more than 0.05 away from 15.3.
\<close>

theorem example_distance_exceeds_1_91:
  "map_option minDistance (controls (frameModel (gltfScene sampleGltf) mountedViewer))
     = Some (frameDistance 55 (bounds (gltfScene sampleGltf)) * 0.2)
   \<and> map_option maxDistance (controls (frameModel (gltfScene sampleGltf) mountedViewer))
     = Some (Some (frameDistance 55 (bounds (gltfScene sampleGltf)) * 8))
   \<and> frameDistance 55 (bounds (gltfScene sampleGltf)) = 2 / (2 * tan (27.5 * pi / 180))
   \<and> 0.005 < \<bar>frameDistance 55 (bounds (gltfScene sampleGltf)) - 1.91\<bar>
   \<and> 0.0005 < \<bar>frameDistance 55 (bounds (gltfScene sampleGltf)) * 0.2 - 0.382\<bar>
   \<and> 0.05 < \<bar>frameDistance 55 (bounds (gltfScene sampleGltf)) * 8 - 15.3\<bar>"
proof -
  define d where "d = frameDistance 55 (bounds (gltfScene sampleGltf))"
  have eq: "d = 2 / (2 * tan (27.5 * pi / 180))" and lower: "1.92 < d"
    unfolding d_def by (rule unit_cube_distance [OF sampleGltf_bounds])+
  have "controls (frameModel (gltfScene sampleGltf) mountedViewer) =
      Some (\<lparr>target = Vec3 0 0 0, minDistance = 0, maxDistance = None\<rparr>
              \<lparr>target := Vec3 0 0 0, minDistance := d * 0.2, maxDistance := Some (d * 8)\<rparr>)"
    using frameModel_fields(2) [OF mounted_camera, of "gltfScene sampleGltf"]
    by (simp add: d_def)
  then have limits:
    "map_option minDistance (controls (frameModel (gltfScene sampleGltf) mountedViewer))
       = Some (d * 0.2)"
    "map_option maxDistance (controls (frameModel (gltfScene sampleGltf) mountedViewer))
       = Some (Some (d * 8))"
    by simp_all
  have "0.005 < d - 1.91" and "0.0005 < d * 0.2 - 0.382" and "0.05 < d * 8 - 15.3"
    using lower by simp_all
  then have "0.005 < \<bar>d - 1.91\<bar>" and "0.0005 < \<bar>d * 0.2 - 0.382\<bar>" and "0.05 < \<bar>d * 8 - 15.3\<bar>"
    by linarith+
  with limits eq show ?thesis
    unfolding d_def by blast
qed

section \<open>Verification: the Adaptive Lighting Heuristic\<close>

subsection \<open>Rounding to a double\<close>

text \<open>
  The rounded value is within half a unit of the last place, and it is determined by the
  binary exponent of its argument and the rounding of the scaled argument to an integer.
\<close>

lemma binary64_zero [simp]: "binary64 0 = 0"
  by (simp add: binary64_def)

lemma roundHalfEven_near: "\<bar>of_int (roundHalfEven y) - y\<bar> \<le> 1 / 2"
  unfolding roundHalfEven_def Let_def by (auto simp: abs_le_iff; linarith)

lemma binary64_near:
  assumes "2 powr (- 1022) \<le> \<bar>x\<bar>"
  shows "\<bar>binary64 x - x\<bar> \<le> \<bar>x\<bar> / 2 ^ 53"
proof -
  have "0 < (2::real) powr (- 1022)" by simp
  with assms have ax: "0 < \<bar>x\<bar>" by linarith
  then have x0: "x \<noteq> 0" by simp
  define e where "e = \<lfloor>log 2 \<bar>x\<bar>\<rfloor>"
  define ulp :: real where "ulp = 2 powr (of_int e - 52)"
  have "- 1022 \<le> log 2 \<bar>x\<bar>"
    using assms ax by (simp add: le_log_iff)
  then have e_lo: "- 1022 \<le> e" unfolding e_def by (simp add: le_floor_iff)
  have "of_int e \<le> log 2 \<bar>x\<bar>" unfolding e_def by simp
  then have pe: "2 powr (of_int e) \<le> \<bar>x\<bar>" using ax by (simp add: le_log_iff)
  have ulp_pos: "0 < ulp" by (simp add: ulp_def)
  have ulp_eq: "ulp = 2 powr (of_int e) / 2 ^ 52"
    by (simp add: ulp_def powr_diff)
  have b: "binary64 x = of_int (roundHalfEven (x / ulp)) * ulp"
    using x0 e_lo by (simp add: binary64_def Let_def e_def [symmetric] ulp_def max_def)
  have "binary64 x - x = (of_int (roundHalfEven (x / ulp)) - x / ulp) * ulp"
    using ulp_pos by (simp add: b left_diff_distrib)
  then have "\<bar>binary64 x - x\<bar> = \<bar>of_int (roundHalfEven (x / ulp)) - x / ulp\<bar> * ulp"
    using ulp_pos by (simp add: abs_mult)
  also have "\<dots> \<le> (1 / 2) * ulp"
    using roundHalfEven_near [of "x / ulp"] ulp_pos by (intro mult_right_mono) simp_all
  also have "\<dots> \<le> \<bar>x\<bar> / 2 ^ 53"
    using pe by (simp add: ulp_eq field_simps)
  finally show ?thesis .
qed


lemma binary64_exponent:
  assumes "2 powr (of_int e) \<le> \<bar>x\<bar>" and "\<bar>x\<bar> < 2 powr (of_int e + 1)" and "- 1022 \<le> e"
  shows "binary64 x = of_int (roundHalfEven (x / 2 powr (of_int e - 52))) * 2 powr (of_int e - 52)"
proof -
  have "0 < (2::real) powr (of_int e)" by simp
  with assms(1) have ax: "0 < \<bar>x\<bar>" by linarith
  then have x0: "x \<noteq> 0" by simp
  have "\<lfloor>log 2 \<bar>x\<bar>\<rfloor> = e"
    using assms(1,2) ax by (simp add: floor_log_eq_powr_iff)
  then show ?thesis
    using x0 assms(3) by (simp add: binary64_def Let_def max_def)
qed

lemma binary64_below_two:
  assumes "k \<le> 1022" and "1 / 2 ^ k \<le> \<bar>x\<bar>" and "\<bar>x\<bar> < 2 / 2 ^ k"
    and "roundHalfEven (x * 2 ^ (k + 52)) = n" and "c = of_int n / 2 ^ (k + 52)"
  shows "binary64 x = c"
proof -
  have p: "(2::real) powr (of_int (- int k)) = 1 / 2 ^ k"
    by (simp add: powr_minus powr_realpow inverse_eq_divide)
  have "(2::real) powr (of_int (- int k) + 1) = 2 powr (of_int (- int k)) * 2 powr 1"
    by (rule powr_add)
  then have q: "(2::real) powr (of_int (- int k) + 1) = 2 / 2 ^ k"
    unfolding p by simp
  have u: "(2::real) powr (of_int (- int k) - 52) = 1 / 2 ^ (k + 52)"
    by (simp add: powr_diff powr_minus powr_realpow inverse_eq_divide power_add)
  have "binary64 x = of_int (roundHalfEven (x / 2 powr (of_int (- int k) - 52)))
                      * 2 powr (of_int (- int k) - 52)"
  proof (rule binary64_exponent)
    show "2 powr (of_int (- int k)) \<le> \<bar>x\<bar>" unfolding p by (rule assms(2))
    show "\<bar>x\<bar> < 2 powr (of_int (- int k) + 1)" unfolding q by (rule assms(3))
    show "- 1022 \<le> - int k" using assms(1) by simp
  qed
  then show ?thesis
    unfolding u using assms(4,5) by simp
qed

lemma binary64_from_one:
  assumes "2 ^ k \<le> \<bar>x\<bar>" and "\<bar>x\<bar> < 2 * 2 ^ k" and "k \<le> 52"
    and "roundHalfEven (x * 2 ^ (52 - k)) = n" and "c = of_int n / 2 ^ (52 - k)"
  shows "binary64 x = c"
proof -
  have p: "(2::real) powr (of_int (int k)) = 2 ^ k"
    by (simp add: powr_realpow)
  have q: "(2::real) powr (of_int (int k) + 1) = 2 * 2 ^ k"
    by (simp add: powr_add powr_realpow)
  have "(2::real) ^ (52 - k) * 2 ^ k = 2 ^ 52"
    using assms(3) by (simp add: power_add [symmetric])
  then have "(2::real) ^ k / 2 ^ 52 = 1 / 2 ^ (52 - k)"
    by (simp add: field_simps)
  moreover have "(2::real) powr (of_int (int k) - 52) = 2 powr (of_int (int k)) / 2 powr 52"
    by (rule powr_diff)
  ultimately have u: "(2::real) powr (of_int (int k) - 52) = 1 / 2 ^ (52 - k)"
    unfolding p by simp
  have "binary64 x = of_int (roundHalfEven (x / 2 powr (of_int (int k) - 52)))
                      * 2 powr (of_int (int k) - 52)"
  proof (rule binary64_exponent)
    show "2 powr (of_int (int k)) \<le> \<bar>x\<bar>" unfolding p by (rule assms(1))
    show "\<bar>x\<bar> < 2 powr (of_int (int k) + 1)" unfolding q by (rule assms(2))
    show "- 1022 \<le> int k" by simp
  qed
  then show ?thesis
    unfolding u using assms(4,5) by simp
qed


text \<open>The count of materials is positive as soon as one material has been counted.\<close>

lemma count_step: "0 \<le> n \<Longrightarrow> 1 / 2 \<le> dadd n 1"
proof -
  assume n: "0 \<le> n"
  have "(2::real) powr (- 1022) \<le> 2 powr 0" by (intro powr_mono) simp_all
  then have "2 powr (- 1022) \<le> \<bar>n + 1\<bar>" using n by simp
  from binary64_near [OF this] have "\<bar>binary64 (n + 1) - (n + 1)\<bar> \<le> (n + 1) / 2 ^ 53"
    using n by simp
  then have "(n + 1) - (n + 1) / 2 ^ 53 \<le> binary64 (n + 1)" by linarith
  moreover have "1 / 2 \<le> (n + 1) - (n + 1) / 2 ^ 53" using n by (simp add: field_simps)
  ultimately have "1 / 2 \<le> binary64 (n + 1)" by linarith
  then show ?thesis by (simp only: dadd_def)
qed

lemma count_positive:
  "0 \<le> n \<Longrightarrow> xs \<noteq> [] \<Longrightarrow> 1 / 2 \<le> foldl (\<lambda>n x. dadd n 1) n xs"
proof (induction xs arbitrary: n)
  case Nil
  then show ?case by simp
next
  case (Cons x xs)
  have s: "1 / 2 \<le> dadd n 1" using Cons.prems(1) by (rule count_step)
  show ?case
  proof (cases "xs = []")
    case True
    then show ?thesis using s by simp
  next
    case False
    have "0 \<le> dadd n 1" using s by linarith
    from Cons.IH [OF this False] show ?thesis by simp
  qed
qed

lemma doubleCount_positive: "xs \<noteq> [] \<Longrightarrow> 0 < doubleCount xs"
  using count_positive [of 0 xs] by (simp add: doubleCount_def)

subsection \<open>The traversal computes the means\<close>

lemma addSamples_Nil [simp]: "addSamples [] acc = acc"
  by (simp add: addSamples_def)

lemma addSamples_append: "addSamples (xs @ ys) acc = addSamples ys (addSamples xs acc)"
  by (simp add: addSamples_def)

lemma qualifying_append: "qualifying (xs @ ys) = qualifying xs @ qualifying ys"
  by (induction xs rule: qualifying.induct) simp_all

lemma fold_sampleMaterial:
  "fold (\<lambda>mat a. sampleMaterial a mat) ms acc = addSamples (qualifying ms) acc"
proof (induction ms arbitrary: acc rule: qualifying.induct)
  case 1
  then show ?case by simp
next
  case (2 ms)
  then show ?case by simp
next
  case (3 cr cg cb metalness ms)
  then show ?case by (simp add: addSamples_def Let_def)
qed

lemma fold_traverse:
  assumes "\<And>k a. k \<in> set kids \<Longrightarrow> traverse a k = addSamples (qualifying (materialsOf k)) a"
  shows "fold (\<lambda>k a. traverse a k) kids acc
           = addSamples (qualifying (concat (map materialsOf kids))) acc"
  using assms
proof (induction kids arbitrary: acc)
  case Nil
  then show ?case by simp
next
  case (Cons k kids)
  then show ?case by (simp add: qualifying_append addSamples_append)
qed

lemma traverse_addSamples:
  "traverse acc obj = addSamples (qualifying (materialsOf obj)) acc"
proof (induction obj arbitrary: acc)
  case (Mesh materials kids)
  then show ?case
    by (simp add: fold_traverse fold_sampleMaterial qualifying_append addSamples_append)
next
  case (Group kids)
  then show ?case by (simp add: fold_traverse)
qed

lemma sceneLook_means:
  "sceneLook obj = chooseLook (meanLuminance obj) (meanMetalness obj)"
proof -
  define samples where "samples = qualifying (materialsOf obj)"
  have t: "traverse \<lparr>materialCount = 0, luminanceSum = 0, metallicSum = 0\<rparr> obj
      = \<lparr>materialCount = doubleCount samples, luminanceSum = doubleSum (map fst samples),
         metallicSum = doubleSum (map snd samples)\<rparr>"
    by (simp add: traverse_addSamples addSamples_def samples_def doubleCount_def doubleSum_def)
  show ?thesis
  proof (cases "samples = []")
    case True
    then show ?thesis
      unfolding sceneLook_def t
      by (simp add: meanLuminance_def meanMetalness_def averageLuminance_def
          averageMetalness_def Let_def samples_def [symmetric] doubleCount_def)
  next
    case False
    then show ?thesis
      unfolding sceneLook_def t using doubleCount_positive [OF False]
      by (simp add: meanLuminance_def meanMetalness_def averageLuminance_def
          averageMetalness_def Let_def samples_def [symmetric])
  qed
qed

lemma appliedLook_after:
  assumes "scene st = Some sc" and "renderer st = Some rd"
    and "fillLight st = Some fl" and "keyLight st = Some kl"
  shows "appliedLook (applyAdaptiveSceneLook m st) =
     (Some (bgColor (sceneLook (graph m))), Some (exposure (sceneLook (graph m))),
      Some (fillIntensity (sceneLook (graph m))), Some (keyIntensity (sceneLook (graph m))))"
  using assms by (simp add: appliedLook_def applyAdaptiveSceneLook_def Let_def)

lemma mounted_look:
  "scene mountedViewer = Some \<lparr>background = 0x2a3448, children = []\<rparr>"
  "renderer mountedViewer = Some \<lparr>toneMappingExposure = 1\<rparr>"
  "fillLight mountedViewer = Some \<lparr>intensity = 1.1\<rparr>"
  "keyLight mountedViewer = Some \<lparr>intensity = 1.1\<rparr>"
  by (simp_all add: mountedViewer_def onMounted_def)

subsection \<open>The doubles of the examples\<close>

text \<open>
  The roundings that occur in the examples: of the decimal literals of the source, of the
  channel values, and of each product, sum and quotient that the heuristic forms for the
  example models. The arguments are written as fractions in lowest terms, \<open>0.2126\<close> as
  \<open>1063 / 5000\<close>; the results are integers over powers of two.
\<close>

lemma double_0_2126: "binary64 (1063 / 5000) = 1914930561557935 / 9007199254740992"
  by (rule binary64_below_two [where k = 3 and n = 7659722246231740])
     (simp_all add: roundHalfEven_def)

lemma double_0_7152: "binary64 (447 / 625) = 6441948906990757 / 9007199254740992"
  by (rule binary64_below_two [where k = 1 and n = 6441948906990757])
     (simp_all add: roundHalfEven_def)

lemma double_0_0722: "binary64 (361 / 5000) = 5202558289538397 / 72057594037927936"
  by (rule binary64_below_two [where k = 4 and n = 5202558289538397])
     (simp_all add: roundHalfEven_def)

lemma double_0_34: "binary64 (17 / 50) = 6124895493223875 / 18014398509481984"
  by (rule binary64_below_two [where k = 2 and n = 6124895493223875])
     (simp_all add: roundHalfEven_def)

lemma double_0_78: "binary64 (39 / 50) = 3512807709348987 / 4503599627370496"
  by (rule binary64_below_two [where k = 1 and n = 7025615418697974])
     (simp_all add: roundHalfEven_def)

lemma double_0_45: "binary64 (9 / 20) = 8106479329266893 / 18014398509481984"
  by (rule binary64_below_two [where k = 2 and n = 8106479329266893])
     (simp_all add: roundHalfEven_def)

lemma double_0_24: "binary64 (6 / 25) = 1080863910568919 / 4503599627370496"
  by (rule binary64_below_two [where k = 3 and n = 8646911284551352])
     (simp_all add: roundHalfEven_def)

lemma double_0_44: "binary64 (11 / 25) = 7926335344172073 / 18014398509481984"
  by (rule binary64_below_two [where k = 2 and n = 7926335344172073])
     (simp_all add: roundHalfEven_def)

lemma double_0_56: "binary64 (14 / 25) = 1261007895663739 / 2251799813685248"
  by (rule binary64_below_two [where k = 1 and n = 5044031582654956])
     (simp_all add: roundHalfEven_def)

lemma rounding_1:
  "binary64 (2069779335233445695776828822265 / 40564819207303340847894502572032)
     = 3676666678191235 / 72057594037927936"
  by (rule binary64_below_two [where k = 5 and n = 7353333356382470])
     (simp_all add: roundHalfEven_def)

lemma rounding_2:
  "binary64 (6962870087295203075096144481683 / 40564819207303340847894502572032)
     = 3092135475355563 / 18014398509481984"
  by (rule binary64_below_two [where k = 3 and n = 6184270950711126])
     (simp_all add: roundHalfEven_def)

lemma rounding_3:
  "binary64 (16045208579613487 / 72057594037927936)
     = 1002825536225843 / 4503599627370496"
  by (rule binary64_below_two [where k = 3 and n = 8022604289806744])
     (simp_all add: roundHalfEven_def)

lemma rounding_4:
  "binary64 (5623257497793218136078165282843 / 324518553658426726783156020576256)
     = 4994455957956861 / 288230376151711744"
  by (rule binary64_below_two [where k = 6 and n = 4994455957956861])
     (simp_all add: roundHalfEven_def)

lemma rounding_5:
  "binary64 (69175290276410813 / 288230376151711744)
     = 1080863910568919 / 4503599627370496"
  by (rule binary64_below_two [where k = 3 and n = 8646911284551352])
     (simp_all add: roundHalfEven_def)

lemma rounding_6:
  "binary64 (1080863910568919 / 4503599627370496)
     = 1080863910568919 / 4503599627370496"
  by (rule binary64_below_two [where k = 3 and n = 8646911284551352])
     (simp_all add: roundHalfEven_def)

lemma rounding_7: "binary64 (1) = 1"
  by (rule binary64_from_one [where k = 0 and n = 4503599627370496])
     (simp_all add: roundHalfEven_def)

lemma rounding_8:
  "binary64 (15178381791711935740673598549255 / 162259276829213363391578010288128)
     = 6740555576683931 / 72057594037927936"
  by (rule binary64_below_two [where k = 4 and n = 6740555576683931])
     (simp_all add: roundHalfEven_def)

lemma rounding_9:
  "binary64 (51061047306831491364688028529261 / 162259276829213363391578010288128)
     = 2834457519075933 / 9007199254740992"
  by (rule binary64_below_two [where k = 2 and n = 5668915038151866])
     (simp_all add: roundHalfEven_def)

lemma rounding_10:
  "binary64 (29416215729291395 / 72057594037927936)
     = 7354053932322849 / 18014398509481984"
  by (rule binary64_below_two [where k = 2 and n = 7354053932322849])
     (simp_all add: roundHalfEven_def)

lemma rounding_11:
  "binary64 (41237221650483601398759308586981 / 1298074214633706907132624082305024)
     = 4578251294793789 / 144115188075855872"
  by (rule binary64_below_two [where k = 5 and n = 4578251294793789])
     (simp_all add: roundHalfEven_def)

lemma rounding_12:
  "binary64 (63410682753376581 / 144115188075855872)
     = 7926335344172073 / 18014398509481984"
  by (rule binary64_below_two [where k = 2 and n = 7926335344172073])
     (simp_all add: roundHalfEven_def)

lemma rounding_13:
  "binary64 (12249790986447749 / 18014398509481984)
     = 3062447746611937 / 4503599627370496"
  by (rule binary64_below_two [where k = 1 and n = 6124895493223874])
     (simp_all add: roundHalfEven_def)

lemma rounding_14: "binary64 (2) = 2"
  by (rule binary64_from_one [where k = 1 and n = 4503599627370496])
     (simp_all add: roundHalfEven_def)

lemma rounding_15:
  "binary64 (3062447746611937 / 9007199254740992)
     = 3062447746611937 / 9007199254740992"
  by (rule binary64_below_two [where k = 2 and n = 6124895493223874])
     (simp_all add: roundHalfEven_def)

lemma rounding_16:
  "binary64 (1914930561557935 / 18014398509481984)
     = 1914930561557935 / 18014398509481984"
  by (rule binary64_below_two [where k = 4 and n = 7659722246231740])
     (simp_all add: roundHalfEven_def)

lemma rounding_17:
  "binary64 (6441948906990757 / 18014398509481984)
     = 6441948906990757 / 18014398509481984"
  by (rule binary64_below_two [where k = 2 and n = 6441948906990757])
     (simp_all add: roundHalfEven_def)

lemma rounding_18:
  "binary64 (2089219867137173 / 4503599627370496)
     = 2089219867137173 / 4503599627370496"
  by (rule binary64_below_two [where k = 2 and n = 8356879468548692])
     (simp_all add: roundHalfEven_def)

lemma rounding_19:
  "binary64 (5202558289538397 / 144115188075855872)
     = 5202558289538397 / 144115188075855872"
  by (rule binary64_below_two [where k = 5 and n = 5202558289538397])
     (simp_all add: roundHalfEven_def)

lemma rounding_20: "binary64 (72057594037927933 / 144115188075855872) = 1 / 2"
  by (rule binary64_below_two [where k = 2 and n = 9007199254740992])
     (simp_all add: roundHalfEven_def)

lemma rounding_21: "binary64 (1 / 2) = 1 / 2"
  by (rule binary64_below_two [where k = 1 and n = 4503599627370496])
     (simp_all add: roundHalfEven_def)

lemma rounding_22:
  "binary64 (6124895493223875 / 18014398509481984)
     = 6124895493223875 / 18014398509481984"
  by (rule binary64_below_two [where k = 2 and n = 6124895493223875])
     (simp_all add: roundHalfEven_def)

lemma rounding_23:
  "binary64 (16212958658533787 / 18014398509481984)
     = 4053239664633447 / 4503599627370496"
  by (rule binary64_below_two [where k = 1 and n = 8106479329266894])
     (simp_all add: roundHalfEven_def)

lemma rounding_24:
  "binary64 (4053239664633447 / 9007199254740992)
     = 4053239664633447 / 9007199254740992"
  by (rule binary64_below_two [where k = 2 and n = 8106479329266894])
     (simp_all add: roundHalfEven_def)

lemma rounding_25:
  "binary64 (1914930561557935 / 9007199254740992)
     = 1914930561557935 / 9007199254740992"
  by (rule binary64_below_two [where k = 3 and n = 7659722246231740])
     (simp_all add: roundHalfEven_def)

lemma rounding_26:
  "binary64 (6441948906990757 / 9007199254740992)
     = 6441948906990757 / 9007199254740992"
  by (rule binary64_below_two [where k = 1 and n = 6441948906990757])
     (simp_all add: roundHalfEven_def)

lemma rounding_27:
  "binary64 (2089219867137173 / 2251799813685248)
     = 2089219867137173 / 2251799813685248"
  by (rule binary64_below_two [where k = 1 and n = 8356879468548692])
     (simp_all add: roundHalfEven_def)

lemma rounding_28:
  "binary64 (5202558289538397 / 72057594037927936)
     = 5202558289538397 / 72057594037927936"
  by (rule binary64_below_two [where k = 4 and n = 5202558289538397])
     (simp_all add: roundHalfEven_def)

lemma rounding_29: "binary64 (72057594037927933 / 72057594037927936) = 1"
  by (rule binary64_below_two [where k = 1 and n = 9007199254740992])
     (simp_all add: roundHalfEven_def)

lemmas double_facts =
  double_0_2126 double_0_7152 double_0_0722 double_0_34 double_0_78 double_0_45 double_0_24
  double_0_44 double_0_56 rounding_1 rounding_2 rounding_3 rounding_4 rounding_5 rounding_6
  rounding_7 rounding_8 rounding_9 rounding_10 rounding_11 rounding_12 rounding_13
  rounding_14 rounding_15 rounding_16 rounding_17 rounding_18 rounding_19 rounding_20
  rounding_21 rounding_22 rounding_23 rounding_24 rounding_25 rounding_26 rounding_27
  rounding_28 rounding_29

lemma greyPair_means:
  "meanLuminance (graph greyPair) = 3062447746611937 / 9007199254740992"
  "meanMetalness (graph greyPair) = 0"
  by (simp_all add: meanLuminance_def meanMetalness_def greyPair_def doubleSum_def
      doubleCount_def dadd_def dmul_def ddiv_def double_facts)

lemma metalPair_means:
  "meanLuminance (graph metalPair) = 1 / 2"
  "meanMetalness (graph metalPair) = 4053239664633447 / 9007199254740992"
  by (simp_all add: meanLuminance_def meanMetalness_def metalPair_def doubleSum_def
      doubleCount_def dadd_def dmul_def ddiv_def double_facts)

lemma whiteModel_means:
  "meanLuminance (graph whiteModel) = 1"
  "meanMetalness (graph whiteModel) = 0"
  by (simp_all add: meanLuminance_def meanMetalness_def whiteModel_def doubleSum_def
      doubleCount_def dadd_def dmul_def ddiv_def double_facts)

lemma blackModel_means:
  "meanLuminance (graph blackModel) = 0"
  "meanMetalness (graph blackModel) = 0"
  by (simp_all add: meanLuminance_def meanMetalness_def blackModel_def doubleSum_def
      doubleCount_def dadd_def dmul_def ddiv_def double_facts)

lemma sampleGltf_means:
  "meanLuminance (graph (gltfScene sampleGltf)) = 1 / 2"
  "meanMetalness (graph (gltfScene sampleGltf)) = 0"
  by (simp_all add: meanLuminance_def meanMetalness_def sampleGltf_def doubleSum_def
      doubleCount_def dadd_def dmul_def ddiv_def double_facts)

text \<open>
  The computed mean luminance of \<open>greyPair\<close> is below the double of \<open>0.34\<close> and below
  \<open>0.34\<close> itself, and the computed mean metalness of \<open>metalPair\<close> is above the double of
  \<open>0.45\<close> and above \<open>0.45\<close> itself, each by less than \<open>10^(-16)\<close>.
\<close>

lemma boundary_means:
  "meanLuminance (graph greyPair) < binary64 0.34"
  "meanLuminance (graph greyPair) < 0.34"
  "0.34 - 1 / 10 ^ 16 < meanLuminance (graph greyPair)"
  "binary64 0.45 < meanMetalness (graph metalPair)"
  "0.45 < meanMetalness (graph metalPair)"
  "meanMetalness (graph metalPair) < 0.45 + 1 / 10 ^ 16"
  by (simp_all add: greyPair_means metalPair_means double_facts)

lemma example_ranges:
  "list_all unitRange (materialsOf (graph greyPair))"
  "list_all unitRange (materialsOf (graph metalPair))"
  "list_all unitRange (materialsOf (graph whiteModel))"
  "list_all unitRange (materialsOf (graph blackModel))"
  "list_all unitRange (materialsOf (graph (gltfScene sampleGltf)))"
  by (simp_all add: greyPair_def metalPair_def whiteModel_def blackModel_def sampleGltf_def
      double_facts)

subsection \<open>The bands\<close>

text \<open>
  Claim C2, as the code has it. With the scene, the renderer and both lights present, and
  for a model whose qualifying materials have colour channels and metalness within
  \<open>[0, 1]\<close>, \<open>applyAdaptiveSceneLook\<close> applies one of four fixed sets of background tone,
  exposure, fill intensity and key intensity, chosen by the mean perceptual luminance and
  the mean metalness of the qualifying materials as double arithmetic computes them: the
  light background \<open>0xf0f0ed\<close> with \<open>1.12\<close>, \<open>1.2\<close>, \<open>1.25\<close> when the mean luminance is below
  \<open>0.34\<close>; the dark cool background \<open>0x242734\<close> with \<open>0.92\<close>, \<open>0.95\<close>, \<open>1.45\<close> when it is above
  \<open>0.78\<close>; \<open>0xdfe5ec\<close> with \<open>1.15\<close>, \<open>1.18\<close>, \<open>1.55\<close> when it is in between and the mean
  metalness is above \<open>0.45\<close>; and the neutral \<open>0xe8e8e8\<close> with \<open>1\<close>, \<open>1.1\<close>, \<open>1.1\<close> otherwise.
  Every decimal number stands for the double nearest to it.
\<close>

theorem adaptive_look_by_bands:
  assumes "scene st = Some sc" and "renderer st = Some rd"
    and "fillLight st = Some fl" and "keyLight st = Some kl"
    and "list_all unitRange (materialsOf (graph m))"
  shows "(meanLuminance (graph m) < binary64 0.34 \<longrightarrow>
            appliedLook (applyAdaptiveSceneLook m st)
              = (Some 0xf0f0ed, Some (binary64 1.12), Some (binary64 1.2), Some (binary64 1.25)))
       \<and> (binary64 0.78 < meanLuminance (graph m) \<longrightarrow>
            appliedLook (applyAdaptiveSceneLook m st)
              = (Some 0x242734, Some (binary64 0.92), Some (binary64 0.95), Some (binary64 1.45)))
       \<and> (binary64 0.34 \<le> meanLuminance (graph m) \<and> meanLuminance (graph m) \<le> binary64 0.78
            \<and> binary64 0.45 < meanMetalness (graph m) \<longrightarrow>
            appliedLook (applyAdaptiveSceneLook m st)
              = (Some 0xdfe5ec, Some (binary64 1.15), Some (binary64 1.18), Some (binary64 1.55)))
       \<and> (binary64 0.34 \<le> meanLuminance (graph m) \<and> meanLuminance (graph m) \<le> binary64 0.78
            \<and> meanMetalness (graph m) \<le> binary64 0.45 \<longrightarrow>
            appliedLook (applyAdaptiveSceneLook m st)
              = (Some 0xe8e8e8, Some 1, Some (binary64 1.1), Some (binary64 1.1)))"
proof -
  have "binary64 0.34 < binary64 0.78"
    by (simp add: double_facts)
  then show ?thesis
    unfolding appliedLook_after [OF assms(1-4)] sceneLook_means
    by (auto simp add: chooseLook_def)
qed

text \<open>
  The four bands at work. The two greys of \<open>greyPair\<close> have the exact mean luminance 0.34
  and the computed mean \<open>0.33999999999999997\<close>, below the threshold; the two materials of
  \<open>metalPair\<close> have the exact mean metalness 0.45 and the computed mean
  \<open>0.45000000000000007\<close>, above the threshold.
\<close>

theorem adaptive_look_by_bands_witness:
  "appliedLook (applyAdaptiveSceneLook greyPair mountedViewer)
     = (Some 0xf0f0ed, Some (binary64 1.12), Some (binary64 1.2), Some (binary64 1.25))
   \<and> appliedLook (applyAdaptiveSceneLook whiteModel mountedViewer)
     = (Some 0x242734, Some (binary64 0.92), Some (binary64 0.95), Some (binary64 1.45))
   \<and> appliedLook (applyAdaptiveSceneLook metalPair mountedViewer)
     = (Some 0xdfe5ec, Some (binary64 1.15), Some (binary64 1.18), Some (binary64 1.55))
   \<and> appliedLook (applyAdaptiveSceneLook (gltfScene sampleGltf) mountedViewer)
     = (Some 0xe8e8e8, Some 1, Some (binary64 1.1), Some (binary64 1.1))"
  using adaptive_look_by_bands [OF mounted_look example_ranges(1)]
    adaptive_look_by_bands [OF mounted_look example_ranges(3)]
    adaptive_look_by_bands [OF mounted_look example_ranges(2)]
    adaptive_look_by_bands [OF mounted_look example_ranges(5)]
  by (simp add: greyPair_means whiteModel_means metalPair_means sampleGltf_means double_facts)

text \<open>
  Claim C2 as stated fails in its naming of the two outer bands: a model of mean luminance
  below the low threshold gets the lightest of the four backgrounds, not a dark one, and
  the one dark background goes to a model of mean luminance above the high threshold.
\<close>

theorem dark_models_get_light_background:
  "meanLuminance (graph blackModel) = 0
   \<and> map_option background (scene (applyAdaptiveSceneLook blackModel mountedViewer))
       = Some 0xf0f0ed
   \<and> \<not> darkTone 0xf0f0ed
   \<and> meanLuminance (graph whiteModel) = 1
   \<and> map_option background (scene (applyAdaptiveSceneLook whiteModel mountedViewer))
       = Some 0x242734
   \<and> darkTone 0x242734"
proof -
  have "appliedLook (applyAdaptiveSceneLook blackModel mountedViewer)
      = (Some 0xf0f0ed, Some (binary64 1.12), Some (binary64 1.2), Some (binary64 1.25))"
    unfolding appliedLook_after [OF mounted_look] sceneLook_means
    by (simp add: chooseLook_def blackModel_means double_facts)
  moreover have "appliedLook (applyAdaptiveSceneLook whiteModel mountedViewer)
      = (Some 0x242734, Some (binary64 0.92), Some (binary64 0.95), Some (binary64 1.45))"
    unfolding appliedLook_after [OF mounted_look] sceneLook_means
    by (simp add: chooseLook_def whiteModel_means double_facts)
  ultimately show ?thesis
    using blackModel_means(1) whiteModel_means(1) by (simp add: appliedLook_def darkTone_def)
qed

end
